theory Spec2Isabelle
  imports Complex_Main "HOL-Library.Log_Nat" "HOL-Library.Multiset"
begin

section \<open>Go's float64\<close>

text \<open>
  \<^verbatim>\<open>type Sample float64\<close>. A float64 is a NaN, an infinity or a finite value. Finite
  values carry their real value; every arithmetic operation computes the exact real result
  and rounds it to the nearest float64, ties to even, overflowing to an infinity (IEEE 754
  binary64, as Go specifies). Operations are rounded one by one: no product and sum are
  fused, as Go allows on some targets. The two zeros are one value \<open>Fin 0\<close>: they
  compare equal in Go and the code below divides by a float64 only in
  \<^verbatim>\<open>1.0/discardPct\<close>, where either zero gives an infinity, which \<open>float_to_int\<close>
  does not convert.
\<close>

datatype float64 = NaN | NInf | PInf | Fin real

type_synonym Sample = float64

definition MaxFloat64_real :: real where
  "MaxFloat64_real = (2 ^ 53 - 1) * 2 ^ 971"

definition SmallestNonzeroFloat64_real :: real where
  "SmallestNonzeroFloat64_real = 1 / 2 ^ 1074"

definition MaxFloat64 :: float64 where
  "MaxFloat64 = Fin MaxFloat64_real"

text \<open>Rounding a real to the nearest integer, ties to the even one.\<close>

definition rne :: "real \<Rightarrow> int" where
  "rne x = (let f = \<lfloor>x\<rfloor>; d = x - of_int f in
      if d < 1 / 2 then f else if 1 / 2 < d then f + 1 else if even f then f else f + 1)"

text \<open>
  The spacing of the float64 values around \<open>q\<close>: 53 significant bits, and never finer
  than the smallest subnormal.
\<close>

definition ulp :: "real \<Rightarrow> real" where
  "ulp q = 2 ^ nat (bitlen \<lfloor>\<bar>q\<bar> / SmallestNonzeroFloat64_real\<rfloor> - 53)
             * SmallestNonzeroFloat64_real"

definition fl :: "real \<Rightarrow> float64" where
  "fl q = (let r = of_int (rne (q / ulp q)) * ulp q in
     if MaxFloat64_real < r then PInf else if r < - MaxFloat64_real then NInf else Fin r)"

text \<open>A \<open>Fin r\<close> is a float64 value when rounding leaves \<open>r\<close> as it is.\<close>

definition is_float64 :: "float64 \<Rightarrow> bool" where
  "is_float64 x = (case x of Fin r \<Rightarrow> fl r = Fin r | _ \<Rightarrow> True)"

text \<open>Comparisons: every comparison with a NaN is false.\<close>

fun flt :: "float64 \<Rightarrow> float64 \<Rightarrow> bool" where
  "flt NaN y = False"
| "flt x NaN = False"
| "flt x NInf = False"
| "flt NInf y = True"
| "flt PInf y = False"
| "flt x PInf = True"
| "flt (Fin a) (Fin b) = (a < b)"

fun fle :: "float64 \<Rightarrow> float64 \<Rightarrow> bool" where
  "fle NaN y = False"
| "fle x NaN = False"
| "fle NInf y = True"
| "fle x NInf = False"
| "fle x PInf = True"
| "fle PInf y = False"
| "fle (Fin a) (Fin b) = (a \<le> b)"

definition fgt :: "float64 \<Rightarrow> float64 \<Rightarrow> bool" where
  "fgt x y = flt y x"

fun fneg :: "float64 \<Rightarrow> float64" where
  "fneg NaN = NaN"
| "fneg NInf = PInf"
| "fneg PInf = NInf"
| "fneg (Fin a) = Fin (- a)"

fun fadd :: "float64 \<Rightarrow> float64 \<Rightarrow> float64" where
  "fadd NaN y = NaN"
| "fadd x NaN = NaN"
| "fadd PInf NInf = NaN"
| "fadd NInf PInf = NaN"
| "fadd PInf y = PInf"
| "fadd NInf y = NInf"
| "fadd x PInf = PInf"
| "fadd x NInf = NInf"
| "fadd (Fin a) (Fin b) = fl (a + b)"

definition fsub :: "float64 \<Rightarrow> float64 \<Rightarrow> float64" where
  "fsub x y = fadd x (fneg y)"

fun fmul :: "float64 \<Rightarrow> float64 \<Rightarrow> float64" where
  "fmul NaN y = NaN"
| "fmul x NaN = NaN"
| "fmul PInf PInf = PInf"
| "fmul PInf NInf = NInf"
| "fmul NInf PInf = NInf"
| "fmul NInf NInf = PInf"
| "fmul PInf (Fin b) = (if b = 0 then NaN else if 0 < b then PInf else NInf)"
| "fmul NInf (Fin b) = (if b = 0 then NaN else if 0 < b then NInf else PInf)"
| "fmul (Fin a) PInf = (if a = 0 then NaN else if 0 < a then PInf else NInf)"
| "fmul (Fin a) NInf = (if a = 0 then NaN else if 0 < a then NInf else PInf)"
| "fmul (Fin a) (Fin b) = fl (a * b)"

fun fdiv :: "float64 \<Rightarrow> float64 \<Rightarrow> float64" where
  "fdiv NaN y = NaN"
| "fdiv x NaN = NaN"
| "fdiv PInf (Fin b) = (if 0 \<le> b then PInf else NInf)"
| "fdiv NInf (Fin b) = (if 0 \<le> b then NInf else PInf)"
| "fdiv PInf y = NaN"
| "fdiv NInf y = NaN"
| "fdiv (Fin a) (Fin b) =
     (if b = 0 then (if a = 0 then NaN else if 0 < a then PInf else NInf) else fl (a / b))"
| "fdiv (Fin a) y = Fin 0"

text \<open>\<^verbatim>\<open>Sample(i)\<close>, \<^verbatim>\<open>float64(i)\<close> for an int \<open>i\<close>.\<close>

definition float_of_int :: "int \<Rightarrow> float64" where
  "float_of_int i = fl (of_int i)"

text \<open>
  \<^verbatim>\<open>int(f)\<close> truncates towards zero; \<^verbatim>\<open>int\<close> has 64 bits, as on every 64-bit
  target. Where the truncated value is no 64-bit int (and for NaN and the infinities) Go
  leaves the result to the implementation: \<open>None\<close>.
\<close>

definition float_to_int :: "float64 \<Rightarrow> int option" where
  "float_to_int f = (case f of
       Fin r \<Rightarrow> (let t = (if 0 \<le> r then \<lfloor>r\<rfloor> else \<lceil>r\<rceil>) in
                  if - (2 ^ 63) \<le> t \<and> t < 2 ^ 63 then Some t else None)
     | _ \<Rightarrow> None)"

section \<open>The accumulator\<close>

text \<open>
  \<^verbatim>\<open>type Stats struct\<close>. The fields \<^verbatim>\<open>count\<close>, \<^verbatim>\<open>sum\<close>, \<^verbatim>\<open>max\<close>, \<^verbatim>\<open>min\<close> and
  \<^verbatim>\<open>sorted\<close> carry the suffix \<open>_f\<close>. Go's \<^verbatim>\<open>int\<close> counters are unbounded integers
  here: wrapping one takes \<open>2 ^ 63\<close> calls of AddSample.
\<close>

record Stats =
  count_f :: int
  sum_f :: Sample
  sum2 :: Sample
  max_f :: Sample
  min_f :: Sample
  samples :: "Sample list"
  sorted_f :: bool
  bins :: "Sample list"
  binCounts :: "int list"

text \<open>
  The panics of the source, one constructor per message, the runtime's panic on a slice
  index out of range, and \<open>ConversionUndefined\<close> for a call whose course hangs on an
  \<^verbatim>\<open>int(f)\<close> that Go leaves to the implementation.
\<close>

datatype panic =
    CannotCallPercentile
  | PctTooSmall
  | PctTooLarge
  | HighMustBeGreater
  | NotEnoughBins
  | NotEnoughSamples
  | IndexOutOfRange
  | ConversionUndefined

definition NewStats :: Stats where
  "NewStats = \<lparr>count_f = 0, sum_f = Fin 0, sum2 = Fin 0,
     max_f = fneg MaxFloat64, min_f = MaxFloat64,
     samples = [], sorted_f = False, bins = [], binCounts = []\<rparr>"

text \<open>
  The loop of AddSample over \<^verbatim>\<open>s.bins\<close>: the first bin whose threshold is at least
  \<open>val\<close> is incremented, and the loop breaks.
\<close>

fun AddSample_range :: "Sample \<Rightarrow> Sample list \<Rightarrow> nat \<Rightarrow> int list \<Rightarrow> panic + int list" where
  "AddSample_range val [] bin counts = Inr counts"
| "AddSample_range val (binVal # rest) bin counts =
     (if fle val binVal
      then (if bin < length counts then Inr (counts[bin := counts ! bin + 1])
            else Inl IndexOutOfRange)
      else AddSample_range val rest (Suc bin) counts)"

definition AddSample :: "Stats \<Rightarrow> Sample \<Rightarrow> panic + Stats" where
  "AddSample s val =
     (let s1 = s\<lparr>count_f := count_f s + 1,
                sum_f := fadd (sum_f s) val,
                sum2 := fadd (sum2 s) (fmul val val)\<rparr>;
          s2 = (if fgt val (max_f s1) then s1\<lparr>max_f := val\<rparr> else s1);
          s3 = (if flt val (min_f s2) then s2\<lparr>min_f := val\<rparr> else s2)
      in if length (bins s3) > 0
         then (case AddSample_range val (bins s3) 0 (binCounts s3) of
                 Inl e \<Rightarrow> Inl e
               | Inr counts \<Rightarrow> Inr (s3\<lparr>binCounts := counts\<rparr>))
         else Inr (s3\<lparr>samples := samples s3 @ [val], sorted_f := False\<rparr>))"

definition Count :: "Stats \<Rightarrow> int" where
  "Count s = count_f s"

definition Min_stats :: "Stats \<Rightarrow> Sample" where
  "Min_stats s = (if fgt (min_f s) (max_f s) then Fin 0 else min_f s)"

text \<open>
  \<^verbatim>\<open>sort.Sort(sampleSlice(s.samples))\<close> is code of Go's library, not of this package;
  \<^verbatim>\<open>Less(i, j)\<close> is \<^verbatim>\<open>s[i] < s[j]\<close>. The library sorts a slice whose \<^verbatim>\<open>Less\<close>
  is a strict weak order, which \<open><\<close> is on samples without NaN. There the ascending
  arrangement is unique, whatever algorithm the library runs (lemma \<open>sort_Sort_unique\<close>
  below), and \<open>sort_Sort\<close> computes it, by insertion with \<^verbatim>\<open>Less\<close>.

  Every comparison with a NaN is false. An insertion sort therefore leaves each NaN in
  its place and sorts the stretches between them, and so does the library on a short
  slice, which it sorts by insertion. On a longer slice with a NaN the library's
  arrangement hangs on its pivots, and \<open>sort_Sort\<close> does not give it. So whatever is
  stated below of a value read from the sorted samples is stated of samples without NaN,
  apart from two evaluations on the three samples [2, NaN, 1], where no element moves.
\<close>

fun sort_insert :: "Sample \<Rightarrow> Sample list \<Rightarrow> Sample list" where
  "sort_insert x [] = [x]"
| "sort_insert x (y # ys) = (if flt y x then y # sort_insert x ys else x # y # ys)"

definition sort_Sort :: "Sample list \<Rightarrow> Sample list" where
  "sort_Sort xs = foldr sort_insert xs []"

definition sortSamples :: "Stats \<Rightarrow> Stats" where
  "sortSamples s =
     (if \<not> sorted_f s then s\<lparr>samples := sort_Sort (samples s), sorted_f := True\<rparr> else s)"

text \<open>A slice read \<^verbatim>\<open>xs[i]\<close>, with the runtime's bounds check.\<close>

definition index :: "Sample list \<Rightarrow> int \<Rightarrow> panic + Sample" where
  "index xs i = (if 0 \<le> i \<and> i < int (length xs) then Inr (xs ! nat i) else Inl IndexOutOfRange)"

text \<open>
  Percentile and Median have value receivers: they work on a copy \<open>c\<close> of the struct,
  whose \<^verbatim>\<open>samples\<close> slice shares its array with the caller's. So \<^verbatim>\<open>sortSamples\<close> on
  the copy reorders the caller's samples and leaves the caller's \<^verbatim>\<open>sorted\<close> flag alone.
  Both functions return their result and the caller's struct after the call.
\<close>

definition Percentile :: "Stats \<Rightarrow> float64 \<Rightarrow> panic + (Sample \<times> Stats)" where
  "Percentile s pct =
     (if length (bins s) > 0 then Inl CannotCallPercentile
      else if length (samples s) = 0 then Inr (Fin 0, s)
      else if flt pct (Fin 0) then Inl PctTooSmall
      else if fgt pct (Fin 1) then Inl PctTooLarge
      else let c = sortSamples s in
        case float_to_int
               (fadd (fmul (float_of_int (int (length (samples c)) - 1)) pct) (Fin (1 / 2))) of
          None \<Rightarrow> Inl ConversionUndefined
        | Some i \<Rightarrow>
            (case index (samples c) i of
               Inl e \<Rightarrow> Inl e
             | Inr v \<Rightarrow> Inr (v, s\<lparr>samples := samples c\<rparr>)))"

definition Median :: "Stats \<Rightarrow> panic + (float64 \<times> Stats)" where
  "Median s =
     (if length (bins s) > 0 then Inl CannotCallPercentile
      else let l = int (length (samples s)) in
        if l = 0 then Inr (Fin 0, s)
        else let c = sortSamples s; half = l div 2; rem = l mod 2 in
          if rem = 0
          then (case index (samples c) half of
                  Inl e \<Rightarrow> Inl e
                | Inr a \<Rightarrow>
                    (case index (samples c) (half - 1) of
                       Inl e \<Rightarrow> Inl e
                     | Inr b \<Rightarrow> Inr (fdiv (fadd a b) (Fin 2), s\<lparr>samples := samples c\<rparr>)))
          else (case index (samples c) half of
                  Inl e \<Rightarrow> Inl e
                | Inr a \<Rightarrow> Inr (a, s\<lparr>samples := samples c\<rparr>)))"

text \<open>
  The loop of CreateBins, \<^verbatim>\<open>for i := 0; i < nbins-1; i++\<close>. Memory is not
  modelled: \<^verbatim>\<open>make\<close> and \<^verbatim>\<open>append\<close> return a slice of any length asked for.
\<close>

function CreateBins_loop :: "int \<Rightarrow> int \<Rightarrow> Sample \<Rightarrow> Sample \<Rightarrow> Sample list \<Rightarrow> Sample list" where
  "CreateBins_loop i nbins spread low bs =
     (if i < nbins - 1
      then CreateBins_loop (i + 1) nbins spread low
             (bs[nat i := fadd (fdiv (fmul (float_of_int i) spread) (float_of_int (nbins - 2))) low])
      else bs)"
  by pat_completeness auto
termination
  by (relation "measure (\<lambda>(i, nbins, spread, low, bs). nat (nbins - 1 - i))") auto

declare CreateBins_loop.simps [simp del]

definition CreateBins :: "Stats \<Rightarrow> int \<Rightarrow> Sample \<Rightarrow> Sample \<Rightarrow> panic + Stats" where
  "CreateBins s nbins low high =
     (if fle high low then Inl HighMustBeGreater
      else if nbins < 3 then Inl NotEnoughBins
      else let spread = fsub high low;
               bs = CreateBins_loop 0 nbins spread low (replicate (nat nbins) (Fin 0))
           in Inr (s\<lparr>bins := bs[nat (nbins - 1) := MaxFloat64],
                     binCounts := replicate (nat nbins) 0,
                     samples := []\<rparr>))"

definition CreateBinsDiscard :: "Stats \<Rightarrow> int \<Rightarrow> float64 \<Rightarrow> panic + Stats" where
  "CreateBinsDiscard s nbins discardPct =
     (case float_to_int (fdiv (Fin 1) discardPct) of
        None \<Rightarrow> Inl ConversionUndefined
      | Some k \<Rightarrow>
          if int (length (samples s)) < k then Inl NotEnoughSamples
          else (case Percentile s discardPct of
                  Inl e \<Rightarrow> Inl e
                | Inr (low, s1) \<Rightarrow>
                    (case Percentile s1 (fsub (Fin 1) discardPct) of
                       Inl e \<Rightarrow> Inl e
                     | Inr (high, s2) \<Rightarrow> CreateBins s2 nbins low high)))"

text \<open>
  A history of an accumulator: the calls that change the struct or its samples array, run
  in order until one panics.
\<close>

datatype call =
    CallAddSample Sample
  | CallCreateBins int Sample Sample
  | CallCreateBinsDiscard int float64
  | CallPercentile float64
  | CallMedian

fun step :: "Stats \<Rightarrow> call \<Rightarrow> panic + Stats" where
  "step s (CallAddSample val) = AddSample s val"
| "step s (CallCreateBins nbins low high) = CreateBins s nbins low high"
| "step s (CallCreateBinsDiscard nbins discardPct) = CreateBinsDiscard s nbins discardPct"
| "step s (CallPercentile pct) =
     (case Percentile s pct of Inl e \<Rightarrow> Inl e | Inr (v, s') \<Rightarrow> Inr s')"
| "step s CallMedian = (case Median s of Inl e \<Rightarrow> Inl e | Inr (v, s') \<Rightarrow> Inr s')"

fun run :: "Stats \<Rightarrow> call list \<Rightarrow> panic + Stats" where
  "run s [] = Inr s"
| "run s (c # cs) = (case step s c of Inl e \<Rightarrow> Inl e | Inr s' \<Rightarrow> run s' cs)"

fun is_AddSample :: "call \<Rightarrow> bool" where
  "is_AddSample (CallAddSample val) = True"
| "is_AddSample c = False"

text \<open>
  The source panics with messages; the specification names three conditions. This is the
  specification's table of which panic is which condition.
\<close>

datatype condition = InvalidArgument | IllegalState | IndexOutOfRangeCondition

fun spec_condition :: "panic \<Rightarrow> condition option" where
  "spec_condition CannotCallPercentile = Some IllegalState"
| "spec_condition NotEnoughSamples = Some IllegalState"
| "spec_condition PctTooSmall = Some InvalidArgument"
| "spec_condition PctTooLarge = Some InvalidArgument"
| "spec_condition HighMustBeGreater = Some InvalidArgument"
| "spec_condition NotEnoughBins = Some InvalidArgument"
| "spec_condition IndexOutOfRange = Some IndexOutOfRangeCondition"
| "spec_condition ConversionUndefined = None"

definition fails_with :: "panic + 'a \<Rightarrow> condition \<Rightarrow> bool" where
  "fails_with r c = (case r of Inl e \<Rightarrow> spec_condition e = Some c | Inr x \<Rightarrow> False)"

section \<open>Facts about rounding\<close>

lemma rne_of_int: "rne (of_int z) = z"
  by (simp add: rne_def)

lemma rne_le: "x \<le> of_int z \<Longrightarrow> rne x \<le> z"
  unfolding rne_def Let_def by (auto; linarith)

lemma rne_ge: "of_int z \<le> x \<Longrightarrow> z \<le> rne x"
  unfolding rne_def Let_def by (auto; linarith)

lemma bitlen_mono: "a \<le> b \<Longrightarrow> bitlen a \<le> bitlen b"
  by (simp add: bitlen_def floorlog_mono nat_mono)

lemma SmallestNonzeroFloat64_real_pos: "0 < SmallestNonzeroFloat64_real"
  by (simp add: SmallestNonzeroFloat64_real_def)

lemma SmallestNonzeroFloat64_real_split:
  assumes "e \<le> 1074"
  shows "SmallestNonzeroFloat64_real = 1 / (2 ^ e * 2 ^ (1074 - e))"
proof -
  have "e + (1074 - e) = 1074"
    using assms by simp
  then have "(2::real) ^ e * 2 ^ (1074 - e) = 2 ^ 1074"
    by (simp only: flip: power_add)
  then show ?thesis
    by (simp only: SmallestNonzeroFloat64_real_def)
qed

lemma MaxFloat64_real_ge: "2 ^ 53 \<le> MaxFloat64_real"
proof -
  have "(2::real) ^ 53 \<le> 2 ^ 971"
    by (rule power_increasing) simp_all
  then have "1 * (2::real) ^ 53 \<le> (2 ^ 53 - 1) * 2 ^ 971"
    by (intro mult_mono) simp_all
  then show ?thesis
    by (simp only: MaxFloat64_real_def mult_1)
qed

lemma MaxFloat64_real_pos: "0 < MaxFloat64_real"
  using MaxFloat64_real_ge by (rule less_le_trans [rotated]) simp

lemma ulp_pos: "0 < ulp q"
  by (simp add: ulp_def SmallestNonzeroFloat64_real_pos)

lemma ulp_normal:
  assumes lo: "2 ^ a / 2 ^ b \<le> \<bar>q\<bar>" and hi: "\<bar>q\<bar> < 2 * 2 ^ a / 2 ^ b" and b: "b \<le> 1022"
  shows "ulp q = 2 ^ a / 2 ^ b / 2 ^ 52"
proof -
  define c where "c = 1022 - b"
  define t where "t = \<bar>q\<bar> / SmallestNonzeroFloat64_real"
  have "b + 52 \<le> 1074" "1074 - (b + 52) = c"
    using b by (simp_all add: c_def)
  then have tiny: "SmallestNonzeroFloat64_real = 1 / (2 ^ (b + 52) * 2 ^ c)"
    using SmallestNonzeroFloat64_real_split [of "b + 52"] by simp
  have t: "t = \<bar>q\<bar> * 2 ^ b * 2 ^ 52 * 2 ^ c"
    unfolding t_def tiny by (simp add: power_add)
  have "2 ^ a / 2 ^ b * (2 ^ b * 2 ^ 52 * 2 ^ c) \<le> \<bar>q\<bar> * (2 ^ b * 2 ^ 52 * 2 ^ c)"
    using lo by (intro mult_right_mono) simp_all
  then have "(2::real) ^ (a + 52 + c) \<le> t"
    unfolding t by (simp add: power_add mult.assoc)
  then have "real_of_int (2 ^ (a + 52 + c)) \<le> t"
    by simp
  then have lo': "2 ^ (a + 52 + c) \<le> \<lfloor>t\<rfloor>"
    by (simp only: le_floor_iff)
  have "\<bar>q\<bar> * (2 ^ b * 2 ^ 52 * 2 ^ c) < 2 * 2 ^ a / 2 ^ b * (2 ^ b * 2 ^ 52 * 2 ^ c)"
    using hi by (intro mult_strict_right_mono) simp_all
  then have "t < (2::real) ^ (a + 53 + c)"
    unfolding t by (simp add: power_add mult.assoc)
  then have "t < real_of_int (2 ^ (a + 53 + c))"
    by simp
  then have hi': "\<lfloor>t\<rfloor> < 2 ^ (a + 53 + c)"
    by (simp only: floor_less_iff)
  have "bitlen \<lfloor>t\<rfloor> \<le> int (a + 53 + c)"
    using hi' by (simp only: bitlen_le_iff_power nat_int) simp
  moreover have "nat (int (a + 53 + c)) - 1 = a + 52 + c"
    by simp
  then have "int (a + 53 + c) \<le> bitlen \<lfloor>t\<rfloor>"
    using lo' by (simp only: bitlen_ge_iff_power) simp
  ultimately have "bitlen \<lfloor>t\<rfloor> = int (a + 53 + c)"
    by (rule antisym)
  then have "nat (bitlen \<lfloor>t\<rfloor> - 53) = a + c"
    by simp
  then have "ulp q = 2 ^ (a + c) * SmallestNonzeroFloat64_real"
    unfolding ulp_def t_def by simp
  also have "\<dots> = 2 ^ a / 2 ^ b / 2 ^ 52"
    unfolding tiny by (simp add: power_add)
  finally show ?thesis .
qed

lemma fl_cert:
  assumes "2 ^ a / 2 ^ b \<le> \<bar>q\<bar>" "\<bar>q\<bar> < 2 * 2 ^ a / 2 ^ b" "b \<le> 1022"
    and "r = real_of_int (rne (q / (2 ^ a / 2 ^ b / 2 ^ 52))) * (2 ^ a / 2 ^ b / 2 ^ 52)"
    and "\<bar>r\<bar> \<le> 2 ^ 53"
  shows "fl q = Fin r"
proof -
  have "ulp q = 2 ^ a / 2 ^ b / 2 ^ 52"
    using assms(1-3) by (rule ulp_normal)
  then have "fl q = (if MaxFloat64_real < r then PInf
      else if r < - MaxFloat64_real then NInf else Fin r)"
    unfolding fl_def Let_def assms(4) by simp
  moreover have "\<bar>r\<bar> \<le> MaxFloat64_real"
    using assms(5) MaxFloat64_real_ge by (rule order_trans)
  then have "\<not> MaxFloat64_real < r" "\<not> r < - MaxFloat64_real"
    by linarith+
  ultimately show ?thesis
    by simp
qed

lemma fl_overflow:
  assumes "2 ^ a / 2 ^ b \<le> \<bar>q\<bar>" "\<bar>q\<bar> < 2 * 2 ^ a / 2 ^ b" "b \<le> 1022"
    and "MaxFloat64_real
      < real_of_int (rne (q / (2 ^ a / 2 ^ b / 2 ^ 52))) * (2 ^ a / 2 ^ b / 2 ^ 52)"
  shows "fl q = PInf"
proof -
  have "ulp q = 2 ^ a / 2 ^ b / 2 ^ 52"
    using assms(1-3) by (rule ulp_normal)
  with assms(4) show ?thesis
    by (simp add: fl_def Let_def)
qed

text \<open>
  Two known values as a check of \<open>fl\<close>: the float64 nearest to 0.1 is
  \<^verbatim>\<open>0x3FB999999999999A\<close>, and \<^verbatim>\<open>0.1 + 0.2\<close> is \<^verbatim>\<open>0.30000000000000004\<close>
  (\<^verbatim>\<open>0x3FD3333333333334\<close>).
\<close>

lemma fl_known_values:
  "fl (1 / 10) = Fin (3602879701896397 / 2 ^ 55)"
  "fl (2 / 10) = Fin (3602879701896397 / 2 ^ 54)"
  "fadd (Fin (3602879701896397 / 2 ^ 55)) (Fin (3602879701896397 / 2 ^ 54))
     = Fin (5404319552844596 / 2 ^ 54)"
proof -
  show "fl (1 / 10) = Fin (3602879701896397 / 2 ^ 55)"
    by (rule fl_cert [where a = 0 and b = 4]) (simp_all add: rne_def)
  show "fl (2 / 10) = Fin (3602879701896397 / 2 ^ 54)"
    by (rule fl_cert [where a = 0 and b = 3]) (simp_all add: rne_def)
  have "fl (3602879701896397 / 2 ^ 55 + 3602879701896397 / 2 ^ 54)
      = Fin (5404319552844596 / 2 ^ 54)"
    by (rule fl_cert [where a = 0 and b = 2]) (simp_all add: rne_def)
  then show "fadd (Fin (3602879701896397 / 2 ^ 55)) (Fin (3602879701896397 / 2 ^ 54))
     = Fin (5404319552844596 / 2 ^ 54)"
    by (simp only: fadd.simps)
qed

lemma ulp_multiple:
  assumes "\<bar>a\<bar> \<le> \<bar>b\<bar>"
  shows "\<exists>d::nat. ulp b = ulp a * 2 ^ d"
proof -
  let ?ja = "nat (bitlen \<lfloor>\<bar>a\<bar> / SmallestNonzeroFloat64_real\<rfloor> - 53)"
  let ?jb = "nat (bitlen \<lfloor>\<bar>b\<bar> / SmallestNonzeroFloat64_real\<rfloor> - 53)"
  have "\<bar>a\<bar> / SmallestNonzeroFloat64_real \<le> \<bar>b\<bar> / SmallestNonzeroFloat64_real"
    using assms SmallestNonzeroFloat64_real_pos by (simp add: divide_right_mono)
  then have "?ja \<le> ?jb"
    by (intro nat_mono diff_right_mono bitlen_mono floor_mono)
  then obtain d where "?jb = ?ja + d"
    using le_Suc_ex by blast
  then have "ulp b = ulp a * 2 ^ d"
    unfolding ulp_def by (simp add: power_add)
  then show ?thesis ..
qed

text \<open>Rounding never crosses a float64 value: below \<open>B\<close> stays below \<open>B\<close>.\<close>

lemma fl_bounded:
  assumes q: "0 \<le> q" "q \<le> B" and B: "fl B = Fin B"
  shows "\<exists>r. fl q = Fin r \<and> 0 \<le> r \<and> r \<le> B"
proof -
  define M where "M = rne (B / ulp B)"
  define r where "r = real_of_int (rne (q / ulp q)) * ulp q"
  obtain d :: nat where d: "ulp B = ulp q * 2 ^ d"
    using ulp_multiple [of q B] q by auto
  define rB where "rB = real_of_int M * ulp B"
  have "fl B = (if MaxFloat64_real < rB then PInf
      else if rB < - MaxFloat64_real then NInf else Fin rB)"
    unfolding fl_def Let_def rB_def M_def ..
  with B have rB: "rB = B" and "\<not> MaxFloat64_real < rB"
    by (simp_all split: if_splits)
  then have Bmax: "B \<le> MaxFloat64_real"
    by (simp only: not_less)
  have Beq: "real_of_int M * ulp B = B"
    using rB by (simp only: rB_def)
  have "B / ulp q = real_of_int M * ulp B / ulp q"
    by (simp only: Beq)
  also have "\<dots> = real_of_int (M * 2 ^ d)"
    unfolding d using ulp_pos [of q] by simp
  finally have Bint: "B / ulp q = real_of_int (M * 2 ^ d)" .
  have "q / ulp q \<le> B / ulp q"
    using q ulp_pos [of q] by (simp add: divide_right_mono)
  then have "rne (q / ulp q) \<le> M * 2 ^ d"
    unfolding Bint by (rule rne_le)
  then have "real_of_int (rne (q / ulp q)) \<le> real_of_int (M * 2 ^ d)"
    by (simp only: of_int_le_iff)
  then have "r \<le> real_of_int (M * 2 ^ d) * ulp q"
    unfolding r_def using ulp_pos [of q] by (simp only: mult_le_cancel_right_pos)
  also have "\<dots> = B"
    unfolding Bint [symmetric] using ulp_pos [of q] by simp
  finally have rB: "r \<le> B" .
  have "real_of_int 0 \<le> q / ulp q"
    using q ulp_pos [of q] by simp
  then have "0 \<le> rne (q / ulp q)"
    by (rule rne_ge)
  then have r0: "0 \<le> r"
    unfolding r_def using ulp_pos [of q] by simp
  have "fl q = Fin r"
    using rB r0 Bmax MaxFloat64_real_pos unfolding fl_def Let_def r_def [symmetric]
    by auto
  with rB r0 show ?thesis by blast
qed

text \<open>
  The float64 values are the integers of up to 53 bits times a power of two that is at
  least the smallest subnormal, up to MaxFloat64; rounding returns such a value, and
  leaves such a value as it is.
\<close>

lemma fl_grid:
  assumes m: "\<bar>m\<bar> \<le> 2 ^ 53"
    and mx: "\<bar>real_of_int m * 2 ^ j * SmallestNonzeroFloat64_real\<bar> \<le> MaxFloat64_real"
  shows "fl (real_of_int m * 2 ^ j * SmallestNonzeroFloat64_real)
       = Fin (real_of_int m * 2 ^ j * SmallestNonzeroFloat64_real)"
proof -
  define r where "r = real_of_int m * 2 ^ j * SmallestNonzeroFloat64_real"
  define i where "i = nat (bitlen \<lfloor>\<bar>r\<bar> / SmallestNonzeroFloat64_real\<rfloor> - 53)"
  have ulp: "ulp r = 2 ^ i * SmallestNonzeroFloat64_real"
    unfolding ulp_def i_def ..
  have "\<bar>r\<bar> / SmallestNonzeroFloat64_real = real_of_int (\<bar>m\<bar> * 2 ^ j)"
    unfolding r_def using SmallestNonzeroFloat64_real_pos by (simp add: abs_mult)
  then have fl_abs: "\<lfloor>\<bar>r\<bar> / SmallestNonzeroFloat64_real\<rfloor> = \<bar>m\<bar> * 2 ^ j"
    by (simp only: floor_of_int)
  have "\<exists>z. r / ulp r = real_of_int z"
  proof (cases "m = 0")
    case True
    then have "r / ulp r = real_of_int 0"
      by (simp add: r_def)
    then show ?thesis ..
  next
    case False
    then have bl: "bitlen (\<bar>m\<bar> * 2 ^ j) = bitlen \<bar>m\<bar> + int j"
      by simp
    have quot: "r / ulp r = real_of_int m * 2 ^ j / 2 ^ i"
      unfolding ulp unfolding r_def using SmallestNonzeroFloat64_real_pos by simp
    show ?thesis
    proof (cases "\<bar>m\<bar> < 2 ^ 53")
      case True
      then have "bitlen \<bar>m\<bar> \<le> 53"
        by (simp add: bitlen_le_iff_power)
      then have "i \<le> j"
        unfolding i_def fl_abs bl by simp
      then obtain d where "j = i + d"
        using le_Suc_ex by blast
      then have "r / ulp r = real_of_int (m * 2 ^ d)"
        unfolding quot by (simp add: power_add)
      then show ?thesis ..
    next
      case False
      with m have m53: "\<bar>m\<bar> = 2 ^ 53"
        by simp
      then have "bitlen \<bar>m\<bar> = 54"
        using bitlen_twopow_add_eq [of 0 53] by simp
      then have i: "i = Suc j"
        unfolding i_def fl_abs bl by simp
      from m53 have "m = 2 ^ 53 \<or> m = - (2 ^ 53)"
        by (auto simp: abs_if split: if_splits)
      then have "r / ulp r = real_of_int (m div 2)"
        unfolding quot i by auto
      then show ?thesis ..
    qed
  qed
  then obtain z where z: "r / ulp r = real_of_int z" ..
  then have "real_of_int (rne (r / ulp r)) * ulp r = r / ulp r * ulp r"
    by (simp only: rne_of_int)
  also have "\<dots> = r"
    using ulp_pos [of r] by simp
  finally have "real_of_int (rne (r / ulp r)) * ulp r = r" .
  moreover have "\<not> MaxFloat64_real < r" "\<not> r < - MaxFloat64_real"
    using mx unfolding r_def by linarith+
  ultimately show ?thesis
    unfolding fl_def Let_def r_def [symmetric] by simp
qed

lemma fl_value:
  assumes "fl q = Fin r"
  shows "\<exists>m j. \<bar>m\<bar> \<le> 2 ^ 53 \<and> r = real_of_int m * 2 ^ j * SmallestNonzeroFloat64_real
     \<and> \<bar>r\<bar> \<le> MaxFloat64_real"
proof -
  define t where "t = \<lfloor>\<bar>q\<bar> / SmallestNonzeroFloat64_real\<rfloor>"
  define j where "j = nat (bitlen t - 53)"
  define m where "m = rne (q / ulp q)"
  have ulp: "ulp q = 2 ^ j * SmallestNonzeroFloat64_real"
    unfolding ulp_def j_def t_def ..
  have t0: "0 \<le> t"
    unfolding t_def using SmallestNonzeroFloat64_real_pos by simp
  have "t < 2 ^ nat (bitlen t)"
  proof (cases "t = 0")
    case True
    then show ?thesis by simp
  next
    case False
    with t0 have "0 < t" by simp
    then show ?thesis
      using bitlen_bounds by blast
  qed
  then have "t + 1 \<le> 2 ^ nat (bitlen t)"
    by simp
  moreover have "nat (bitlen t) \<le> j + 53"
    unfolding j_def by simp
  then have "(2::int) ^ nat (bitlen t) \<le> 2 ^ (j + 53)"
    by (intro power_increasing) simp_all
  ultimately have "t + 1 \<le> 2 ^ (j + 53)"
    by linarith
  then have "real_of_int (t + 1) \<le> real_of_int (2 ^ (j + 53))"
    by (simp only: of_int_le_iff)
  moreover have "\<bar>q\<bar> / SmallestNonzeroFloat64_real < real_of_int (t + 1)"
    unfolding t_def by linarith
  ultimately have "\<bar>q\<bar> / SmallestNonzeroFloat64_real < 2 ^ (j + 53)"
    by simp
  then have "\<bar>q\<bar> / SmallestNonzeroFloat64_real < 2 ^ 53 * 2 ^ j"
    by (simp only: power_add mult.commute)
  then have bound: "\<bar>q\<bar> / SmallestNonzeroFloat64_real / 2 ^ j < 2 ^ 53"
    by (simp only: pos_divide_less_eq zero_less_power zero_less_numeral)
  have "\<bar>q / ulp q\<bar> = \<bar>q\<bar> / ulp q"
    by (simp only: abs_divide abs_of_pos [OF ulp_pos])
  also have "\<dots> = \<bar>q\<bar> / SmallestNonzeroFloat64_real / 2 ^ j"
    by (simp only: ulp divide_divide_eq_left mult.commute)
  also note bound
  finally have lt: "\<bar>q / ulp q\<bar> < 2 ^ 53" .
  define x where "x = q / ulp q"
  have "\<bar>x\<bar> < 2 ^ 53"
    using lt unfolding x_def .
  then have "x \<le> real_of_int (2 ^ 53)" "real_of_int (- (2 ^ 53)) \<le> x"
    by simp_all
  then have "rne x \<le> 2 ^ 53" "- (2 ^ 53) \<le> rne x"
    using rne_le [of x "2 ^ 53"] rne_ge [of "- (2 ^ 53)" x] by blast+
  then have "m \<le> 2 ^ 53" "- (2 ^ 53) \<le> m"
    unfolding m_def x_def .
  then have m: "\<bar>m\<bar> \<le> 2 ^ 53"
    by simp
  define y where "y = real_of_int m * ulp q"
  have "fl q = (if MaxFloat64_real < y then PInf
      else if y < - MaxFloat64_real then NInf else Fin y)"
    unfolding fl_def Let_def y_def m_def ..
  with assms have "y = r" "\<not> MaxFloat64_real < y" "\<not> y < - MaxFloat64_real"
    by (simp_all split: if_splits)
  then have "r = real_of_int m * 2 ^ j * SmallestNonzeroFloat64_real" "\<bar>r\<bar> \<le> MaxFloat64_real"
    unfolding y_def ulp by (simp_all add: mult.assoc)
  with m show ?thesis
    by blast
qed

lemma fl_idem: "fl q = Fin r \<Longrightarrow> fl r = Fin r"
  using fl_value [of q r] fl_grid by blast

lemma fl_neg: "fl r = Fin r \<Longrightarrow> fl (- r) = Fin (- r)"
proof -
  assume "fl r = Fin r"
  from fl_value [OF this] obtain m j where
    "\<bar>m\<bar> \<le> 2 ^ 53" "r = real_of_int m * 2 ^ j * SmallestNonzeroFloat64_real"
    "\<bar>r\<bar> \<le> MaxFloat64_real"
    by blast
  then have "\<bar>- m\<bar> \<le> 2 ^ 53" "- r = real_of_int (- m) * 2 ^ j * SmallestNonzeroFloat64_real"
    "\<bar>real_of_int (- m) * 2 ^ j * SmallestNonzeroFloat64_real\<bar> \<le> MaxFloat64_real"
    by simp_all
  with fl_grid [of "- m" j] show ?thesis
    by simp
qed

lemma is_float64_ops:
  "is_float64 (fl q)" "is_float64 (float_of_int i)"
  "is_float64 x \<Longrightarrow> is_float64 (fneg x)"
  "is_float64 (fadd x y)" "is_float64 (fmul x y)" "is_float64 (fdiv x y)"
proof -
  show fl: "is_float64 (fl q)" for q
    by (cases "fl q") (auto simp: is_float64_def dest: fl_idem)
  then show "is_float64 (float_of_int i)"
    by (simp add: float_of_int_def)
  show "is_float64 x \<Longrightarrow> is_float64 (fneg x)"
    by (cases x) (auto simp: is_float64_def dest: fl_neg)
  have zero: "is_float64 (Fin 0)"
    using fl_grid [of 0 0] MaxFloat64_real_pos by (simp add: is_float64_def)
  show "is_float64 (fadd x y)"
    by (cases x; cases y) (simp_all add: fl, simp_all add: is_float64_def)
  show "is_float64 (fmul x y)"
    by (cases x; cases y) (simp_all add: fl, simp_all add: is_float64_def)
  show "is_float64 (fdiv x y)"
    using zero by (cases x; cases y) (simp_all add: fl, simp_all add: is_float64_def)
qed

text \<open>An integer of up to 53 bits over a power of two is a float64 value.\<close>

lemma fl_dyadic:
  assumes m: "\<bar>m\<bar> < 2 ^ 53" and e: "e \<le> 1074"
  shows "fl (real_of_int m / 2 ^ e) = Fin (real_of_int m / 2 ^ e)"
proof -
  have eq: "real_of_int m / 2 ^ e
      = real_of_int m * 2 ^ (1074 - e) * SmallestNonzeroFloat64_real"
    unfolding SmallestNonzeroFloat64_real_split [OF e] by simp
  have "\<bar>real_of_int m / 2 ^ e\<bar> \<le> \<bar>real_of_int m\<bar>"
    by (simp add: field_simps mult_le_cancel_left1)
  also have "\<dots> \<le> 2 ^ 53"
    using m by (metis less_imp_le of_int_abs of_int_le_iff of_int_numeral of_int_power)
  also note MaxFloat64_real_ge
  finally have "\<bar>real_of_int m * 2 ^ (1074 - e) * SmallestNonzeroFloat64_real\<bar>
      \<le> MaxFloat64_real"
    unfolding eq .
  moreover have "\<bar>m\<bar> \<le> 2 ^ 53"
    using m by simp
  ultimately show ?thesis
    unfolding eq by (intro fl_grid)
qed

lemma fl_exact:
  assumes "real_of_int \<lfloor>x * 2 ^ 20\<rfloor> = x * 2 ^ 20" and "\<bar>x\<bar> < 2 ^ 33"
  shows "fl x = Fin x"
proof -
  define m where "m = \<lfloor>x * 2 ^ 20\<rfloor>"
  have x: "x = real_of_int m / 2 ^ 20"
    unfolding m_def assms(1) by simp
  have "\<bar>real_of_int m\<bar> = \<bar>x\<bar> * 2 ^ 20"
    unfolding m_def assms(1) by (simp add: abs_mult)
  also have "\<dots> < 2 ^ 33 * 2 ^ 20"
    using assms(2) by (intro mult_strict_right_mono) simp_all
  finally have "real_of_int \<bar>m\<bar> < real_of_int (2 ^ 53)"
    by simp
  then have "\<bar>m\<bar> < 2 ^ 53"
    by (simp only: of_int_less_iff)
  then have "fl (real_of_int m / 2 ^ 20) = Fin (real_of_int m / 2 ^ 20)"
    by (rule fl_dyadic) simp
  then show ?thesis
    by (simp only: x [symmetric])
qed

lemma float_of_int_exact: "\<bar>i\<bar> < 2 ^ 53 \<Longrightarrow> float_of_int i = Fin (real_of_int i)"
  using fl_dyadic [of i 0] by (simp add: float_of_int_def)

lemma MaxFloat64_real_gt: "x < 2 ^ 53 \<Longrightarrow> x < MaxFloat64_real"
  using MaxFloat64_real_ge by (rule less_le_trans [rotated])

lemma MaxFloat64_real_neg_lt: "- (2 ^ 53) < x \<Longrightarrow> - MaxFloat64_real < x"
  using MaxFloat64_real_ge by linarith

section \<open>Facts about the comparisons\<close>

lemma flt_imp_not_fle: "flt a b \<Longrightarrow> \<not> fle b a"
  by (cases a; cases b) simp_all

lemma not_flt_iff_fle: "a \<noteq> NaN \<Longrightarrow> b \<noteq> NaN \<Longrightarrow> \<not> flt a b \<longleftrightarrow> fle b a"
  by (cases a; cases b) auto

lemma fle_trans: "fle a b \<Longrightarrow> fle b c \<Longrightarrow> fle a c"
  by (cases a; cases b; cases c) simp_all

lemma fle_refl: "a \<noteq> NaN \<Longrightarrow> fle a a"
  by (cases a) simp_all

lemma fle_not_NaN: "fle a b \<Longrightarrow> a \<noteq> NaN \<and> b \<noteq> NaN"
  by (cases a; cases b) simp_all

lemma fadd_commute: "fadd x y = fadd y x"
  by (cases x; cases y) (simp_all add: add.commute)

text \<open>Rules that evaluate float64 arithmetic on small dyadic numerals.\<close>

lemmas eval_float = fgt_def fsub_def float_of_int_def MaxFloat64_def fl_exact
  MaxFloat64_real_gt MaxFloat64_real_neg_lt

section \<open>Percentile: failures and the empty accumulator\<close>

text \<open>
  C9. In exact mode with no sample held, Percentile returns 0 and leaves the accumulator as
  it is, for every float64 \<open>pct\<close>: below 0, above 1, an infinity or a NaN. The check for
  an empty \<^verbatim>\<open>samples\<close> comes before the two range checks.
\<close>

theorem Percentile_empty_returns_zero:
  "bins s = [] \<Longrightarrow> samples s = [] \<Longrightarrow> Percentile s pct = Inr (Fin 0, s)"
  by (simp add: Percentile_def)

theorem Percentile_empty_returns_zero_witness:
  "bins NewStats = [] \<and> samples NewStats = [] \<and> flt (Fin (- 1)) (Fin 0) \<and> fgt (Fin 2) (Fin 1)
   \<and> Percentile NewStats (Fin (- 1)) = Inr (Fin 0, NewStats)
   \<and> Percentile NewStats (Fin 2) = Inr (Fin 0, NewStats)
   \<and> Percentile NewStats NaN = Inr (Fin 0, NewStats)"
  using Percentile_empty_returns_zero [of NewStats "Fin (- 1)"]
    Percentile_empty_returns_zero [of NewStats "Fin 2"]
    Percentile_empty_returns_zero [of NewStats NaN]
  by (simp add: NewStats_def fgt_def)

text \<open>
  C5, as stated, fails on the new accumulator: it is in exact mode, \<open>- 1 < 0\<close>, and
  Percentile returns 0 instead of failing.
\<close>

theorem Percentile_range_counterexample:
  "bins NewStats = [] \<and> flt (Fin (- 1)) (Fin 0)
   \<and> \<not> fails_with (Percentile NewStats (Fin (- 1))) InvalidArgument"
  by (simp add: NewStats_def Percentile_def fails_with_def)

text \<open>
  C5, amended. In exact mode with at least one sample held, Percentile fails with an
  InvalidArgument condition whenever \<open>pct < 0\<close> or \<open>pct > 1\<close>; in binned mode it fails
  with an IllegalState condition for every \<open>pct\<close>.
\<close>

theorem Percentile_failures:
  "(bins s = [] \<and> samples s \<noteq> [] \<and> (flt pct (Fin 0) \<or> fgt pct (Fin 1))
      \<longrightarrow> fails_with (Percentile s pct) InvalidArgument)
   \<and> (bins s \<noteq> [] \<longrightarrow> fails_with (Percentile s pct) IllegalState)"
  by (simp add: Percentile_def fails_with_def)

theorem Percentile_failures_witness:
  "fails_with (Percentile \<lparr>count_f = 1, sum_f = Fin 1, sum2 = Fin 1, max_f = Fin 1, min_f = Fin 1,
       samples = [Fin 1], sorted_f = False, bins = [], binCounts = []\<rparr> (Fin 2)) InvalidArgument
   \<and> fails_with (Percentile \<lparr>count_f = 1, sum_f = Fin 1, sum2 = Fin 1, max_f = Fin 1,
       min_f = Fin 1, samples = [Fin 1], sorted_f = False, bins = [], binCounts = []\<rparr>
       (Fin (- 1))) InvalidArgument
   \<and> fails_with (Percentile \<lparr>count_f = 1, sum_f = Fin 1, sum2 = Fin 1, max_f = Fin 1,
       min_f = Fin 1, samples = [], sorted_f = False, bins = [Fin 1, Fin 3, MaxFloat64],
       binCounts = [0, 0, 0]\<rparr> (Fin (1 / 2))) IllegalState"
  using Percentile_failures [of "\<lparr>count_f = 1, sum_f = Fin 1, sum2 = Fin 1, max_f = Fin 1,
       min_f = Fin 1, samples = [Fin 1], sorted_f = False, bins = [], binCounts = []\<rparr>" "Fin 2"]
    Percentile_failures [of "\<lparr>count_f = 1, sum_f = Fin 1, sum2 = Fin 1, max_f = Fin 1,
       min_f = Fin 1, samples = [Fin 1], sorted_f = False, bins = [], binCounts = []\<rparr>"
       "Fin (- 1)"]
    Percentile_failures [of "\<lparr>count_f = 1, sum_f = Fin 1, sum2 = Fin 1, max_f = Fin 1,
       min_f = Fin 1, samples = [], sorted_f = False, bins = [Fin 1, Fin 3, MaxFloat64],
       binCounts = [0, 0, 0]\<rparr>" "Fin (1 / 2)"]
  by (simp add: fgt_def)

section \<open>CreateBins\<close>

lemma CreateBins_loop_length:
  "length (CreateBins_loop i nbins spread low bs) = length bs"
  by (induction i nbins spread low bs rule: CreateBins_loop.induct)
     (subst CreateBins_loop.simps, simp)

lemma CreateBins_loop_nth:
  "0 \<le> i \<Longrightarrow> nbins - 1 \<le> int (length bs) \<Longrightarrow> k < length bs \<Longrightarrow>
   CreateBins_loop i nbins spread low bs ! k =
     (if i \<le> int k \<and> int k < nbins - 1
      then fadd (fdiv (fmul (float_of_int (int k)) spread) (float_of_int (nbins - 2))) low
      else bs ! k)"
proof (induction i nbins spread low bs rule: CreateBins_loop.induct)
  case (1 i nbins spread low bs)
  show ?case
  proof (cases "i < nbins - 1")
    case True
    let ?bs = "bs[nat i := fadd (fdiv (fmul (float_of_int i) spread) (float_of_int (nbins - 2))) low]"
    have "CreateBins_loop i nbins spread low bs ! k = CreateBins_loop (i + 1) nbins spread low ?bs ! k"
      using True by (subst CreateBins_loop.simps) simp
    also have "\<dots> = (if i + 1 \<le> int k \<and> int k < nbins - 1
      then fadd (fdiv (fmul (float_of_int (int k)) spread) (float_of_int (nbins - 2))) low
      else ?bs ! k)"
      using "1.IH" [OF True] "1.prems" by simp
    finally have step: "CreateBins_loop i nbins spread low bs ! k =
      (if i + 1 \<le> int k \<and> int k < nbins - 1
       then fadd (fdiv (fmul (float_of_int (int k)) spread) (float_of_int (nbins - 2))) low
       else ?bs ! k)" .
    show ?thesis
    proof (cases "int k = i")
      case True
      then have "nat i = k" by simp
      with step \<open>int k = i\<close> \<open>i < nbins - 1\<close> "1.prems"(3) show ?thesis
        by simp
    next
      case False
      then have "nat i \<noteq> k"
        using "1.prems"(1) by auto
      with step False show ?thesis
        by auto
    qed
  next
    case False
    then have "CreateBins_loop i nbins spread low bs = bs"
      by (subst CreateBins_loop.simps) simp
    with False show ?thesis
      by auto
  qed
qed

lemma CreateBins_succeeds:
  assumes "flt low high" "3 \<le> nbins"
  shows "CreateBins s nbins low high =
     Inr (s\<lparr>bins := (CreateBins_loop 0 nbins (fsub high low) low
                       (replicate (nat nbins) (Fin 0)))[nat (nbins - 1) := MaxFloat64],
            binCounts := replicate (nat nbins) 0,
            samples := []\<rparr>)"
  using assms by (simp add: CreateBins_def flt_imp_not_fle)

lemma CreateBins_bins_length:
  "CreateBins s nbins low high = Inr s' \<Longrightarrow>
     length (bins s') = nat nbins \<and> length (binCounts s') = nat nbins \<and> 3 \<le> nbins"
  by (auto simp: CreateBins_def CreateBins_loop_length Let_def split: if_splits)

lemma CreateBins_bins_nth:
  assumes "CreateBins s nbins low high = Inr s'" "0 \<le> i" "i < nbins"
  shows "bins s' ! nat i =
     (if i < nbins - 1
      then fadd (fdiv (fmul (float_of_int i) (fsub high low)) (float_of_int (nbins - 2))) low
      else MaxFloat64)"
proof -
  from assms(1) have n: "3 \<le> nbins"
    and b: "bins s' = (CreateBins_loop 0 nbins (fsub high low) low
                       (replicate (nat nbins) (Fin 0)))[nat (nbins - 1) := MaxFloat64]"
    by (auto simp: CreateBins_def Let_def split: if_splits)
  show ?thesis
  proof (cases "i < nbins - 1")
    case True
    then have "bins s' ! nat i = CreateBins_loop 0 nbins (fsub high low) low
                       (replicate (nat nbins) (Fin 0)) ! nat i"
      unfolding b using assms(2) by (simp add: nth_list_update)
    also have "\<dots> = fadd (fdiv (fmul (float_of_int i) (fsub high low)) (float_of_int (nbins - 2))) low"
      using True assms(2) n by (subst CreateBins_loop_nth) auto
    finally show ?thesis using True by simp
  next
    case False
    with assms have "i = nbins - 1" by simp
    then show ?thesis
      unfolding b using n by (simp add: CreateBins_loop_length)
  qed
qed

lemma list_of_length_5:
  "length xs = 5 \<Longrightarrow> xs = [xs ! 0, xs ! 1, xs ! 2, xs ! 3, xs ! 4]"
  by (auto simp: list_eq_iff_nth_eq nth_Cons' less_Suc_eq numeral_eq_Suc)

text \<open>
  C10. CreateBins does not look at the mode. Called on an accumulator that is already in
  binned mode, with \<open>high > low\<close> and \<open>nbins \<ge> 3\<close>, it returns without a panic; the
  new thresholds are those of the call, whatever the old ones were, and every bin count
  is zero.
\<close>

theorem CreateBins_again:
  assumes "bins s \<noteq> []" "fgt high low" "3 \<le> nbins"
  shows "\<exists>s'. CreateBins s nbins low high = Inr s'
     \<and> length (bins s') = nat nbins
     \<and> (\<forall>i. 0 \<le> i \<and> i < nbins - 1 \<longrightarrow> bins s' ! nat i =
           fadd (fdiv (fmul (float_of_int i) (fsub high low)) (float_of_int (nbins - 2))) low)
     \<and> bins s' ! nat (nbins - 1) = MaxFloat64
     \<and> binCounts s' = replicate (nat nbins) 0"
proof -
  from assms have ok: "CreateBins s nbins low high =
     Inr (s\<lparr>bins := (CreateBins_loop 0 nbins (fsub high low) low
                       (replicate (nat nbins) (Fin 0)))[nat (nbins - 1) := MaxFloat64],
            binCounts := replicate (nat nbins) 0,
            samples := []\<rparr>)" (is "_ = Inr ?s'")
    by (simp add: CreateBins_succeeds fgt_def)
  have "length (bins ?s') = nat nbins"
    using CreateBins_bins_length [OF ok] by blast
  moreover have "\<forall>i. 0 \<le> i \<and> i < nbins - 1 \<longrightarrow> bins ?s' ! nat i =
           fadd (fdiv (fmul (float_of_int i) (fsub high low)) (float_of_int (nbins - 2))) low"
    using CreateBins_bins_nth [OF ok] by simp
  moreover have "bins ?s' ! nat (nbins - 1) = MaxFloat64"
    using CreateBins_bins_nth [OF ok, of "nbins - 1"] assms(3) by simp
  moreover have "binCounts ?s' = replicate (nat nbins) 0"
    by simp
  ultimately show ?thesis
    using ok by blast
qed

theorem CreateBins_again_witness:
  "bins (\<lparr>count_f = 3, sum_f = Fin (17 / 2), sum2 = Fin (201 / 4), max_f = Fin 7,
       min_f = Fin (1 / 2), samples = [], sorted_f = False, bins = [Fin 1, Fin 3, MaxFloat64],
       binCounts = [2, 0, 1]\<rparr>) \<noteq> []
   \<and> fgt (Fin 4) (Fin 1) \<and> (3::int) \<le> 5
   \<and> (\<exists>s'. CreateBins (\<lparr>count_f = 3, sum_f = Fin (17 / 2), sum2 = Fin (201 / 4), max_f = Fin 7,
       min_f = Fin (1 / 2), samples = [], sorted_f = False, bins = [Fin 1, Fin 3, MaxFloat64],
       binCounts = [2, 0, 1]\<rparr>)
               5 (Fin 1) (Fin 4) = Inr s'
         \<and> length (bins s') = 5
         \<and> bins s' ! 1 = Fin 2
         \<and> bins s' ! 4 = MaxFloat64
         \<and> binCounts s' = [0, 0, 0, 0, 0])"
proof -
  let ?s = "\<lparr>count_f = 3, sum_f = Fin (17 / 2), sum2 = Fin (201 / 4), max_f = Fin 7,
       min_f = Fin (1 / 2), samples = [], sorted_f = False, bins = [Fin 1, Fin 3, MaxFloat64],
       binCounts = [2, 0, 1]\<rparr>"
  have h: "bins ?s \<noteq> []" "fgt (Fin 4) (Fin 1)" "(3::int) \<le> 5"
    by (simp_all add: fgt_def)
  from CreateBins_again [OF h] obtain s' where s':
    "CreateBins ?s 5 (Fin 1) (Fin 4) = Inr s'"
    "length (bins s') = nat 5"
    "\<forall>i. 0 \<le> i \<and> i < 5 - 1 \<longrightarrow> bins s' ! nat i =
        fadd (fdiv (fmul (float_of_int i) (fsub (Fin 4) (Fin 1))) (float_of_int (5 - 2))) (Fin 1)"
    "bins s' ! nat (5 - 1) = MaxFloat64"
    "binCounts s' = replicate (nat 5) 0"
    by blast
  from s'(3) have "bins s' ! nat 1 =
      fadd (fdiv (fmul (float_of_int 1) (fsub (Fin 4) (Fin 1))) (float_of_int (5 - 2))) (Fin 1)"
    by (rule allE [where x = 1]) simp
  then have "bins s' ! 1 = Fin 2"
    by (simp add: fsub_def float_of_int_def fl_exact)
  moreover have "replicate (nat 5) (0::int) = [0, 0, 0, 0, 0]"
    by (simp add: numeral_eq_Suc)
  ultimately show ?thesis
    using h s'(1,2,4,5) by auto
qed

text \<open>
  C3, as stated, fails in its consequence that threshold \<open>nbins - 2\<close> lands on
  \<open>high\<close>. With \<open>low = - 1\<close> and \<open>high = 1 / 2 ^ 60\<close> the float64 difference
  \<open>high - low\<close> rounds to 1, and the threshold is \<open>1 * 1 / 1 + (- 1) = 0\<close>, not
  \<open>high\<close>.
\<close>

theorem CreateBins_counterexample:
  "(3::int) \<le> 3 \<and> flt (Fin (- 1)) (Fin (1 / 2 ^ 60))
   \<and> CreateBins NewStats 3 (Fin (- 1)) (Fin (1 / 2 ^ 60))
     = Inr \<lparr>count_f = 0, sum_f = Fin 0, sum2 = Fin 0, max_f = fneg MaxFloat64,
         min_f = MaxFloat64, samples = [], sorted_f = False,
         bins = [Fin (- 1), Fin 0, MaxFloat64], binCounts = [0, 0, 0]\<rparr>
   \<and> [Fin (- 1), Fin 0, MaxFloat64] ! nat (3 - 2) \<noteq> Fin (1 / 2 ^ 60)"
proof -
  have "fl (1 / 2 ^ 60 + - (- 1)) = Fin 1"
    by (rule fl_cert [where a = 0 and b = 0]) (simp_all add: rne_def)
  then have spread: "fsub (Fin (1 / 2 ^ 60)) (Fin (- 1)) = Fin 1"
    by (simp only: fsub_def fneg.simps fadd.simps)
  then have spread': "fsub (Fin (1 / 1152921504606846976)) (Fin (- 1)) = Fin 1"
    by simp
  show ?thesis
    by (simp add: NewStats_def CreateBins_def CreateBins_loop.simps Let_def spread'
        float_of_int_def fl_exact numeral_eq_Suc)
qed

text \<open>
  C3, amended. For \<open>nbins \<ge> 3\<close> and \<open>low < high\<close> CreateBins returns with exactly
  \<open>nbins\<close> thresholds; threshold \<open>i\<close>, for \<open>0 \<le> i < nbins - 1\<close>, is
  \<open>low + i * (high - low) / (nbins - 2)\<close> with every operation a float64 operation,
  rounded to nearest; the last threshold is MaxFloat64. Threshold \<open>nbins - 2\<close> is
  \<open>high\<close> whenever \<open>high - low\<close> and \<open>(nbins - 2) * (high - low)\<close> are float64 values,
  that is, are computed without rounding (and \<open>nbins - 2 < 2 ^ 53\<close>). The witness is
  the example of the claim, CreateBins(5, 1, 4) giving [1, 2, 3, 4, MaxFloat64].
\<close>

theorem CreateBins_thresholds:
  assumes "3 \<le> nbins" "flt low high"
  shows "\<exists>s'. CreateBins s nbins low high = Inr s'
     \<and> length (bins s') = nat nbins
     \<and> (\<forall>i. 0 \<le> i \<and> i < nbins - 1 \<longrightarrow> bins s' ! nat i =
           fadd low (fdiv (fmul (float_of_int i) (fsub high low)) (float_of_int (nbins - 2))))
     \<and> bins s' ! nat (nbins - 1) = MaxFloat64
     \<and> (\<forall>h l. high = Fin h \<and> low = Fin l \<and> nbins - 2 < 2 ^ 53 \<and> fl h = Fin h
           \<and> fl (h - l) = Fin (h - l)
           \<and> fl (real_of_int (nbins - 2) * (h - l)) = Fin (real_of_int (nbins - 2) * (h - l))
           \<longrightarrow> bins s' ! nat (nbins - 2) = high)"
proof -
  from assms have ok: "CreateBins s nbins low high =
     Inr (s\<lparr>bins := (CreateBins_loop 0 nbins (fsub high low) low
                       (replicate (nat nbins) (Fin 0)))[nat (nbins - 1) := MaxFloat64],
            binCounts := replicate (nat nbins) 0,
            samples := []\<rparr>)" (is "_ = Inr ?s'")
    by (simp add: CreateBins_succeeds)
  have len: "length (bins ?s') = nat nbins"
    using CreateBins_bins_length [OF ok] by blast
  have nth: "bins ?s' ! nat i =
      fadd low (fdiv (fmul (float_of_int i) (fsub high low)) (float_of_int (nbins - 2)))"
    if "0 \<le> i" "i < nbins - 1" for i
    using CreateBins_bins_nth [OF ok, of i] that
    by (simp add: fadd_commute [of low])
  have last: "bins ?s' ! nat (nbins - 1) = MaxFloat64"
    using CreateBins_bins_nth [OF ok, of "nbins - 1"] assms(1) by simp
  have lands: "bins ?s' ! nat (nbins - 2) = high"
    if h: "high = Fin h" "low = Fin l" "nbins - 2 < 2 ^ 53" "fl h = Fin h"
      "fl (h - l) = Fin (h - l)"
      "fl (real_of_int (nbins - 2) * (h - l)) = Fin (real_of_int (nbins - 2) * (h - l))"
    for h l
  proof -
    have k: "float_of_int (nbins - 2) = Fin (real_of_int (nbins - 2))"
      using assms(1) h(3) by (intro float_of_int_exact) simp
    have nz: "real_of_int (nbins - 2) \<noteq> 0"
      using assms(1) by simp
    have sp: "fsub high low = Fin (h - l)"
      unfolding h(1,2) fsub_def using h(5) by simp
    have "fmul (float_of_int (nbins - 2)) (fsub high low)
        = Fin (real_of_int (nbins - 2) * (h - l))"
      unfolding k sp using h(6) by simp
    then have "fdiv (fmul (float_of_int (nbins - 2)) (fsub high low)) (float_of_int (nbins - 2))
        = Fin (h - l)"
      unfolding k using nz h(5) by simp
    then have "fadd low (fdiv (fmul (float_of_int (nbins - 2)) (fsub high low))
        (float_of_int (nbins - 2))) = Fin h"
      unfolding h(2) using h(4) by simp
    with nth [of "nbins - 2"] assms(1) show ?thesis
      by (simp add: h(1))
  qed
  from ok len nth last lands show ?thesis
    by blast
qed

theorem CreateBins_thresholds_witness:
  "(3::int) \<le> 5 \<and> flt (Fin 1) (Fin 4)
   \<and> (\<exists>s'. CreateBins \<lparr>count_f = 4, sum_f = Fin 10, sum2 = Fin 30, max_f = Fin 4, min_f = Fin 1,
              samples = [Fin 1, Fin 2, Fin 3, Fin 4], sorted_f = False, bins = [],
              binCounts = []\<rparr> 5 (Fin 1) (Fin 4) = Inr s'
         \<and> bins s' = [Fin 1, Fin 2, Fin 3, Fin 4, MaxFloat64])"
proof -
  let ?s = "\<lparr>count_f = 4, sum_f = Fin 10, sum2 = Fin 30, max_f = Fin 4, min_f = Fin 1,
              samples = [Fin 1, Fin 2, Fin 3, Fin 4], sorted_f = False, bins = [],
              binCounts = []\<rparr>"
  have h: "(3::int) \<le> 5" "flt (Fin 1) (Fin 4)"
    by simp_all
  from CreateBins_thresholds [OF h, of ?s] obtain s' where s':
    "CreateBins ?s 5 (Fin 1) (Fin 4) = Inr s'"
    "length (bins s') = nat 5"
    "\<forall>i. 0 \<le> i \<and> i < 5 - 1 \<longrightarrow> bins s' ! nat i =
        fadd (Fin 1) (fdiv (fmul (float_of_int i) (fsub (Fin 4) (Fin 1))) (float_of_int (5 - 2)))"
    "bins s' ! nat (5 - 1) = MaxFloat64"
    "\<forall>h l. Fin 4 = Fin h \<and> Fin 1 = Fin l \<and> (5::int) - 2 < 2 ^ 53 \<and> fl h = Fin h
        \<and> fl (h - l) = Fin (h - l)
        \<and> fl (real_of_int (5 - 2) * (h - l)) = Fin (real_of_int (5 - 2) * (h - l))
        \<longrightarrow> bins s' ! nat (5 - 2) = Fin 4"
    by blast
  have nth: "bins s' ! nat i =
      fadd (Fin 1) (fdiv (fmul (float_of_int i) (fsub (Fin 4) (Fin 1))) (float_of_int (5 - 2)))"
    if "0 \<le> i" "i < 4" for i
    using s'(3) that by simp
  have "bins s' ! 0 = Fin 1"
    using nth [of 0] by (simp add: eval_float)
  moreover have "bins s' ! 1 = Fin 2"
    using nth [of 1] by (simp add: eval_float)
  moreover have "bins s' ! 2 = Fin 3"
    using nth [of 2] by (simp add: eval_float)
  moreover have "bins s' ! 3 = Fin 4"
    using s'(5) by (simp add: fl_exact)
  moreover have "bins s' ! 4 = MaxFloat64"
    using s'(4) by simp
  moreover have "length (bins s') = 5"
    using s'(2) by simp
  ultimately have "bins s' = [Fin 1, Fin 2, Fin 3, Fin 4, MaxFloat64]"
    using list_of_length_5 [of "bins s'"] by simp
  with h s'(1) show ?thesis
    by blast
qed

section \<open>What each call leaves unchanged\<close>

lemma Percentile_frame:
  "Percentile s pct = Inr (v, s') \<Longrightarrow>
     count_f s' = count_f s \<and> sum_f s' = sum_f s \<and> sum2 s' = sum2 s \<and> max_f s' = max_f s
     \<and> min_f s' = min_f s \<and> sorted_f s' = sorted_f s \<and> bins s' = bins s
     \<and> binCounts s' = binCounts s"
  unfolding Percentile_def Let_def
  by (simp split: if_splits option.splits sum.splits) auto

lemma Median_frame:
  "Median s = Inr (v, s') \<Longrightarrow>
     count_f s' = count_f s \<and> sum_f s' = sum_f s \<and> sum2 s' = sum2 s \<and> max_f s' = max_f s
     \<and> min_f s' = min_f s \<and> sorted_f s' = sorted_f s \<and> bins s' = bins s
     \<and> binCounts s' = binCounts s"
  unfolding Median_def Let_def
  by (simp split: if_splits sum.splits) auto

lemma CreateBins_frame:
  "CreateBins s nbins low high = Inr s' \<Longrightarrow>
     count_f s' = count_f s \<and> sum_f s' = sum_f s \<and> sum2 s' = sum2 s \<and> max_f s' = max_f s
     \<and> min_f s' = min_f s \<and> sorted_f s' = sorted_f s"
  unfolding CreateBins_def Let_def
  by (simp split: if_splits) auto

lemma CreateBinsDiscard_frame:
  assumes "CreateBinsDiscard s nbins discardPct = Inr s'"
  shows "count_f s' = count_f s \<and> sum_f s' = sum_f s \<and> sum2 s' = sum2 s \<and> max_f s' = max_f s
     \<and> min_f s' = min_f s \<and> sorted_f s' = sorted_f s"
proof -
  from assms obtain low s1 high s2 where
    p1: "Percentile s discardPct = Inr (low, s1)" and
    p2: "Percentile s1 (fsub (Fin 1) discardPct) = Inr (high, s2)" and
    cb: "CreateBins s2 nbins low high = Inr s'"
    by (auto simp: CreateBinsDiscard_def split: option.splits if_splits sum.splits)
  from Percentile_frame [OF p1] Percentile_frame [OF p2] CreateBins_frame [OF cb]
  show ?thesis by simp
qed

lemma AddSample_count:
  "AddSample s val = Inr s' \<Longrightarrow> count_f s' = count_f s + 1"
  unfolding AddSample_def Let_def
  by (auto split: if_splits sum.splits)

lemma step_count:
  assumes "step s c = Inr s'"
  shows "count_f s' = count_f s + (if is_AddSample c then 1 else 0)"
proof (cases c)
  case (CallAddSample val)
  with assms show ?thesis by (simp add: AddSample_count)
next
  case (CallCreateBins nbins low high)
  with assms have "CreateBins s nbins low high = Inr s'" by simp
  from CreateBins_frame [OF this] CallCreateBins show ?thesis by simp
next
  case (CallCreateBinsDiscard nbins discardPct)
  with assms have "CreateBinsDiscard s nbins discardPct = Inr s'" by simp
  from CreateBinsDiscard_frame [OF this] CallCreateBinsDiscard show ?thesis by simp
next
  case (CallPercentile pct)
  with assms obtain v where "Percentile s pct = Inr (v, s')"
    by (auto split: sum.splits)
  from Percentile_frame [OF this] CallPercentile show ?thesis by simp
next
  case CallMedian
  with assms obtain v where "Median s = Inr (v, s')"
    by (auto split: sum.splits)
  from Median_frame [OF this] CallMedian show ?thesis by simp
qed

lemma run_count:
  "run s calls = Inr s' \<Longrightarrow> count_f s' = count_f s + int (length (filter is_AddSample calls))"
proof (induction calls arbitrary: s)
  case Nil
  then show ?case by simp
next
  case (Cons c calls)
  from Cons.prems obtain s1 where s1: "step s c = Inr s1" and r: "run s1 calls = Inr s'"
    by (auto split: sum.splits)
  from Cons.IH [OF r] step_count [OF s1] show ?case
    by simp
qed

text \<open>AddSample never panics on an accumulator reached from a new one.\<close>

lemma AddSample_range_returns:
  "bin + length bs \<le> length counts \<Longrightarrow>
   \<exists>counts'. AddSample_range val bs bin counts = Inr counts' \<and> length counts' = length counts"
  by (induction bs arbitrary: bin) auto

lemma AddSample_returns:
  assumes "length (binCounts s) = length (bins s)"
  shows "\<exists>s'. AddSample s val = Inr s' \<and> length (binCounts s') = length (bins s')"
proof -
  from assms have "0 + length (bins s) \<le> length (binCounts s)"
    by simp
  from AddSample_range_returns [OF this, of val] obtain counts' where
    "AddSample_range val (bins s) 0 (binCounts s) = Inr counts'"
    "length counts' = length (binCounts s)"
    by blast
  with assms show ?thesis
    unfolding AddSample_def Let_def by auto
qed

lemma step_binCounts_length:
  assumes "step s c = Inr s'" "length (binCounts s) = length (bins s)"
  shows "length (binCounts s') = length (bins s')"
proof (cases c)
  case (CallAddSample val)
  with assms AddSample_returns [OF assms(2), of val] show ?thesis by auto
next
  case (CallCreateBins nbins low high)
  with assms have "CreateBins s nbins low high = Inr s'" by simp
  from CreateBins_bins_length [OF this] show ?thesis by simp
next
  case (CallCreateBinsDiscard nbins discardPct)
  with assms obtain s2 low high where "CreateBins s2 nbins low high = Inr s'"
    by (auto simp: CreateBinsDiscard_def split: option.splits if_splits sum.splits)
  from CreateBins_bins_length [OF this] show ?thesis by simp
next
  case (CallPercentile pct)
  with assms obtain v where "Percentile s pct = Inr (v, s')"
    by (auto split: sum.splits)
  from Percentile_frame [OF this] assms(2) show ?thesis by simp
next
  case CallMedian
  with assms obtain v where "Median s = Inr (v, s')"
    by (auto split: sum.splits)
  from Median_frame [OF this] assms(2) show ?thesis by simp
qed

lemma run_binCounts_length:
  "run s calls = Inr s' \<Longrightarrow> length (binCounts s) = length (bins s) \<Longrightarrow>
     length (binCounts s') = length (bins s')"
proof (induction calls arbitrary: s)
  case Nil
  then show ?case by simp
next
  case (Cons c calls)
  from Cons.prems(1) obtain s1 where s1: "step s c = Inr s1" and r: "run s1 calls = Inr s'"
    by (auto split: sum.splits)
  from Cons.IH [OF r step_binCounts_length [OF s1 Cons.prems(2)]] show ?case .
qed

lemma reached_AddSample_returns:
  assumes "run NewStats calls = Inr s"
  shows "\<exists>s'. AddSample s val = Inr s' \<and> count_f s' = count_f s + 1"
proof -
  have "length (binCounts NewStats) = length (bins NewStats)"
    by (simp add: NewStats_def)
  from run_binCounts_length [OF assms this] have "length (binCounts s) = length (bins s)" .
  from AddSample_returns [OF this, of val] obtain s' where "AddSample s val = Inr s'"
    by blast
  with AddSample_count [OF this] show ?thesis
    by blast
qed

text \<open>
  C7. A call of CreateBins that returns leaves \<^verbatim>\<open>count\<close>, \<^verbatim>\<open>sum\<close>, \<^verbatim>\<open>sum2\<close>,
  \<^verbatim>\<open>min\<close> and \<^verbatim>\<open>max\<close> as they were (and the \<^verbatim>\<open>sorted\<close> flag too: only
  \<^verbatim>\<open>bins\<close>, \<^verbatim>\<open>binCounts\<close> and \<^verbatim>\<open>samples\<close> are assigned). After any history of
  calls on a new accumulator, in either mode, Count is the number of AddSample calls made,
  and a further AddSample returns without a panic and adds one to it.
\<close>

theorem CreateBins_keeps_aggregates:
  "(CreateBins s nbins low high = Inr s' \<longrightarrow>
      count_f s' = count_f s \<and> sum_f s' = sum_f s \<and> sum2 s' = sum2 s
      \<and> min_f s' = min_f s \<and> max_f s' = max_f s \<and> sorted_f s' = sorted_f s)
   \<and> (run NewStats calls = Inr t \<longrightarrow>
        Count t = int (length (filter is_AddSample calls))
        \<and> (\<exists>t'. AddSample t val = Inr t' \<and> Count t' = Count t + 1))"
proof (intro conjI impI)
  assume "CreateBins s nbins low high = Inr s'"
  from CreateBins_frame [OF this]
  show "count_f s' = count_f s" "sum_f s' = sum_f s" "sum2 s' = sum2 s"
    "min_f s' = min_f s" "max_f s' = max_f s" "sorted_f s' = sorted_f s"
    by simp_all
next
  assume r: "run NewStats calls = Inr t"
  from run_count [OF r] show "Count t = int (length (filter is_AddSample calls))"
    by (simp add: Count_def NewStats_def)
  from reached_AddSample_returns [OF r]
  show "\<exists>t'. AddSample t val = Inr t' \<and> Count t' = Count t + 1"
    by (simp add: Count_def)
qed

theorem CreateBins_keeps_aggregates_witness:
  "CreateBins \<lparr>count_f = 2, sum_f = Fin 3, sum2 = Fin 5, max_f = Fin 2, min_f = Fin 1,
       samples = [Fin 1, Fin 2], sorted_f = False, bins = [], binCounts = []\<rparr> 3 (Fin 1) (Fin 3)
     = Inr \<lparr>count_f = 2, sum_f = Fin 3, sum2 = Fin 5, max_f = Fin 2, min_f = Fin 1,
       samples = [], sorted_f = False, bins = [Fin 1, Fin 3, MaxFloat64], binCounts = [0, 0, 0]\<rparr>
   \<and> run NewStats [CallAddSample (Fin 1), CallAddSample (Fin 2), CallCreateBins 3 (Fin 1) (Fin 3),
         CallAddSample (Fin 2)]
     = Inr \<lparr>count_f = 3, sum_f = Fin 5, sum2 = Fin 9, max_f = Fin 2, min_f = Fin 1,
       samples = [], sorted_f = False, bins = [Fin 1, Fin 3, MaxFloat64], binCounts = [0, 1, 0]\<rparr>
   \<and> Count \<lparr>count_f = 3, sum_f = Fin 5, sum2 = Fin 9, max_f = Fin 2, min_f = Fin 1,
       samples = [], sorted_f = False, bins = [Fin 1, Fin 3, MaxFloat64], binCounts = [0, 1, 0]\<rparr>
     = 3
   \<and> (\<exists>t'. AddSample \<lparr>count_f = 3, sum_f = Fin 5, sum2 = Fin 9, max_f = Fin 2,
         min_f = Fin 1, samples = [], sorted_f = False, bins = [Fin 1, Fin 3, MaxFloat64],
         binCounts = [0, 1, 0]\<rparr> PInf = Inr t' \<and> Count t' = 4)"
proof -
  let ?s = "\<lparr>count_f = 2, sum_f = Fin 3, sum2 = Fin 5, max_f = Fin 2, min_f = Fin 1,
       samples = [Fin 1, Fin 2], sorted_f = False, bins = [], binCounts = []\<rparr>"
  let ?s' = "\<lparr>count_f = 2, sum_f = Fin 3, sum2 = Fin 5, max_f = Fin 2, min_f = Fin 1,
       samples = [], sorted_f = False, bins = [Fin 1, Fin 3, MaxFloat64], binCounts = [0, 0, 0]\<rparr>"
  let ?t = "\<lparr>count_f = 3, sum_f = Fin 5, sum2 = Fin 9, max_f = Fin 2, min_f = Fin 1,
       samples = [], sorted_f = False, bins = [Fin 1, Fin 3, MaxFloat64], binCounts = [0, 1, 0]\<rparr>"
  let ?calls = "[CallAddSample (Fin 1), CallAddSample (Fin 2), CallCreateBins 3 (Fin 1) (Fin 3),
         CallAddSample (Fin 2)]"
  have cb: "CreateBins ?s 3 (Fin 1) (Fin 3) = Inr ?s'"
    by (simp add: CreateBins_def CreateBins_loop.simps eval_float numeral_eq_Suc)
  have r: "run NewStats ?calls = Inr ?t"
    by (simp add: NewStats_def AddSample_def CreateBins_def CreateBins_loop.simps Let_def
        eval_float numeral_eq_Suc)
  from CreateBins_keeps_aggregates [of ?s 3 "Fin 1" "Fin 3" ?s' ?calls ?t PInf] r
  have c: "Count ?t = int (length (filter is_AddSample ?calls))"
    and "\<exists>t'. AddSample ?t PInf = Inr t' \<and> Count t' = Count ?t + 1"
    by blast+
  then obtain t' where t': "AddSample ?t PInf = Inr t'" "Count t' = Count ?t + 1"
    by blast
  from c have c3: "Count ?t = 3"
    by simp
  with t'(2) have "Count t' = 4"
    by simp
  with t'(1) have "\<exists>t'. AddSample ?t PInf = Inr t' \<and> Count t' = 4"
    by blast
  with cb r c3 show ?thesis
    by (intro conjI)
qed

section \<open>Bin counts\<close>

lemma sum_list_increment:
  "i < length xs \<Longrightarrow> sum_list (xs[i := xs ! i + 1]) = sum_list xs + (1::int)"
proof (induction xs arbitrary: i)
  case Nil
  then show ?case by simp
next
  case (Cons x xs)
  then show ?case by (cases i) simp_all
qed

lemma AddSample_range_counts:
  "bs \<noteq> [] \<Longrightarrow> fle val (last bs) \<Longrightarrow> bin + length bs \<le> length counts \<Longrightarrow>
   \<exists>counts'. AddSample_range val bs bin counts = Inr counts'
     \<and> length counts' = length counts \<and> sum_list counts' = sum_list counts + 1"
proof (induction bs arbitrary: bin)
  case Nil
  then show ?case by simp
next
  case (Cons binVal rest)
  show ?case
  proof (cases "fle val binVal")
    case True
    with Cons.prems show ?thesis
      by (simp add: sum_list_increment)
  next
    case False
    with Cons.prems have "rest \<noteq> []" "fle val (last rest)" "Suc bin + length rest \<le> length counts"
      by (auto split: if_splits)
    from Cons.IH [OF this] False show ?thesis
      by simp
  qed
qed

lemma AddSample_binned:
  assumes "bins s \<noteq> []" "last (bins s) = MaxFloat64" "length (binCounts s) = length (bins s)"
    and "fle val MaxFloat64"
  shows "\<exists>s'. AddSample s val = Inr s' \<and> bins s' = bins s
     \<and> length (binCounts s') = length (binCounts s)
     \<and> sum_list (binCounts s') = sum_list (binCounts s) + 1"
proof -
  from assms have "\<exists>counts'. AddSample_range val (bins s) 0 (binCounts s) = Inr counts'
     \<and> length counts' = length (binCounts s) \<and> sum_list counts' = sum_list (binCounts s) + 1"
    by (intro AddSample_range_counts) simp_all
  then obtain counts' where "AddSample_range val (bins s) 0 (binCounts s) = Inr counts'"
    "length counts' = length (binCounts s)" "sum_list counts' = sum_list (binCounts s) + 1"
    by blast
  with assms(1) show ?thesis
    unfolding AddSample_def Let_def by simp
qed

lemma run_AddSample_binned:
  "bins s \<noteq> [] \<Longrightarrow> last (bins s) = MaxFloat64 \<Longrightarrow> length (binCounts s) = length (bins s) \<Longrightarrow>
   \<forall>v\<in>set vals. fle v MaxFloat64 \<Longrightarrow>
   \<exists>s'. run s (map CallAddSample vals) = Inr s' \<and> bins s' = bins s
     \<and> sum_list (binCounts s') = sum_list (binCounts s) + int (length vals)"
proof (induction vals arbitrary: s)
  case Nil
  then show ?case by simp
next
  case (Cons v vals)
  from Cons.prems have "fle v MaxFloat64" by simp
  from AddSample_binned [OF Cons.prems(1-3) this] obtain s1 where s1:
    "AddSample s v = Inr s1" "bins s1 = bins s" "length (binCounts s1) = length (binCounts s)"
    "sum_list (binCounts s1) = sum_list (binCounts s) + 1"
    by blast
  with Cons.prems have "bins s1 \<noteq> []" "last (bins s1) = MaxFloat64"
    "length (binCounts s1) = length (bins s1)" "\<forall>v\<in>set vals. fle v MaxFloat64"
    by simp_all
  from Cons.IH [OF this] obtain s' where "run s1 (map CallAddSample vals) = Inr s'"
    "bins s' = bins s1" "sum_list (binCounts s') = sum_list (binCounts s1) + int (length vals)"
    by blast
  with s1 show ?case by simp
qed

lemma CreateBins_binned:
  assumes "CreateBins s nbins low high = Inr s0"
  shows "bins s0 \<noteq> [] \<and> last (bins s0) = MaxFloat64
     \<and> length (binCounts s0) = length (bins s0) \<and> binCounts s0 = replicate (nat nbins) 0"
proof -
  from assms have n: "3 \<le> nbins"
    and b: "bins s0 = (CreateBins_loop 0 nbins (fsub high low) low
                       (replicate (nat nbins) (Fin 0)))[nat (nbins - 1) := MaxFloat64]"
    and c: "binCounts s0 = replicate (nat nbins) 0"
    by (auto simp: CreateBins_def Let_def split: if_splits)
  have len: "length (bins s0) = nat nbins"
    unfolding b by (simp add: CreateBins_loop_length)
  with n have ne: "bins s0 \<noteq> []"
    by auto
  have "nat (nbins - 1) = length (bins s0) - 1"
    using len n by simp
  then have "last (bins s0) = MaxFloat64"
    using ne unfolding b by (simp add: last_list_update CreateBins_loop_length)
  with ne len c show ?thesis by simp
qed

text \<open>
  C2, as stated, fails for a sample that is above every threshold: \<open>+Inf\<close> is a float64
  and \<^verbatim>\<open>val <= binVal\<close> is false for every bin, the last one included, whose threshold is
  MaxFloat64. AddSample counts the sample and increments no bin.
\<close>

theorem binCounts_sum_counterexample:
  "CreateBins NewStats 3 (Fin 1) (Fin 3)
     = Inr \<lparr>count_f = 0, sum_f = Fin 0, sum2 = Fin 0, max_f = fneg MaxFloat64,
         min_f = MaxFloat64, samples = [], sorted_f = False,
         bins = [Fin 1, Fin 3, MaxFloat64], binCounts = [0, 0, 0]\<rparr>
   \<and> run \<lparr>count_f = 0, sum_f = Fin 0, sum2 = Fin 0, max_f = fneg MaxFloat64,
         min_f = MaxFloat64, samples = [], sorted_f = False,
         bins = [Fin 1, Fin 3, MaxFloat64], binCounts = [0, 0, 0]\<rparr> (map CallAddSample [PInf])
     = Inr \<lparr>count_f = 1, sum_f = PInf, sum2 = PInf, max_f = PInf,
         min_f = MaxFloat64, samples = [], sorted_f = False,
         bins = [Fin 1, Fin 3, MaxFloat64], binCounts = [0, 0, 0]\<rparr>
   \<and> sum_list [0, 0, 0] \<noteq> int (length [PInf])"
  by (simp add: NewStats_def AddSample_def CreateBins_def CreateBins_loop.simps Let_def
      eval_float numeral_eq_Suc)

text \<open>
  C2, amended. After a call of CreateBins that returns, every bin count is zero, whatever
  was added before; and after any sequence of AddSample calls whose samples are at most
  MaxFloat64 (so neither \<open>+Inf\<close> nor NaN), the bin counts sum to the number of those calls.
\<close>

theorem binCounts_sum:
  assumes "CreateBins s nbins low high = Inr s0" and "\<forall>v\<in>set vals. fle v MaxFloat64"
  shows "binCounts s0 = replicate (nat nbins) 0
     \<and> (\<exists>s'. run s0 (map CallAddSample vals) = Inr s'
           \<and> sum_list (binCounts s') = int (length vals))"
proof -
  from CreateBins_binned [OF assms(1)] have inv: "bins s0 \<noteq> []" "last (bins s0) = MaxFloat64"
    "length (binCounts s0) = length (bins s0)" and z: "binCounts s0 = replicate (nat nbins) 0"
    by blast+
  from run_AddSample_binned [OF inv assms(2)] z show ?thesis
    by (auto simp: sum_list_replicate)
qed

theorem binCounts_sum_witness:
  "CreateBins \<lparr>count_f = 2, sum_f = Fin 3, sum2 = Fin 5, max_f = Fin 2, min_f = Fin 1,
       samples = [Fin 1, Fin 2], sorted_f = False, bins = [], binCounts = []\<rparr> 3 (Fin 1) (Fin 3)
     = Inr \<lparr>count_f = 2, sum_f = Fin 3, sum2 = Fin 5, max_f = Fin 2, min_f = Fin 1,
       samples = [], sorted_f = False, bins = [Fin 1, Fin 3, MaxFloat64], binCounts = [0, 0, 0]\<rparr>
   \<and> fle (Fin 2) MaxFloat64 \<and> fle NInf MaxFloat64 \<and> fle (Fin 5) MaxFloat64
   \<and> (\<exists>s'. run \<lparr>count_f = 2, sum_f = Fin 3, sum2 = Fin 5, max_f = Fin 2, min_f = Fin 1,
              samples = [], sorted_f = False, bins = [Fin 1, Fin 3, MaxFloat64],
              binCounts = [0, 0, 0]\<rparr> (map CallAddSample [Fin 2, NInf, Fin 5]) = Inr s'
         \<and> sum_list (binCounts s') = 3)"
proof -
  let ?s = "\<lparr>count_f = 2, sum_f = Fin 3, sum2 = Fin 5, max_f = Fin 2, min_f = Fin 1,
       samples = [Fin 1, Fin 2], sorted_f = False, bins = [], binCounts = []\<rparr>"
  let ?b = "\<lparr>count_f = 2, sum_f = Fin 3, sum2 = Fin 5, max_f = Fin 2, min_f = Fin 1,
       samples = [], sorted_f = False, bins = [Fin 1, Fin 3, MaxFloat64], binCounts = [0, 0, 0]\<rparr>"
  have cb: "CreateBins ?s 3 (Fin 1) (Fin 3) = Inr ?b"
    by (simp add: CreateBins_def CreateBins_loop.simps eval_float numeral_eq_Suc)
  have le: "\<forall>v\<in>set [Fin 2, NInf, Fin 5]. fle v MaxFloat64"
    by (simp add: MaxFloat64_def MaxFloat64_real_gt less_imp_le)
  have "\<exists>s'. run ?b (map CallAddSample [Fin 2, NInf, Fin 5]) = Inr s'
         \<and> sum_list (binCounts s') = 3"
    using binCounts_sum [OF cb le, THEN conjunct2] by simp
  moreover have "fle (Fin 2) MaxFloat64" "fle NInf MaxFloat64" "fle (Fin 5) MaxFloat64"
    using le by simp_all
  ultimately show ?thesis
    using cb by (intro conjI)
qed

section \<open>The sentinel of Min\<close>

lemma AddSample_minmax:
  assumes v: "val \<noteq> NaN" and a: "AddSample s val = Inr s'"
    and inv: "(count_f s = 0 \<and> min_f s = MaxFloat64 \<and> max_f s = fneg MaxFloat64)
        \<or> (0 < count_f s \<and> fle (min_f s) (max_f s))"
  shows "0 < count_f s' \<and> fle (min_f s') (max_f s')"
proof -
  have c: "count_f s' = count_f s + 1"
    using a by (rule AddSample_count)
  have mx: "max_f s' = (if flt (max_f s) val then val else max_f s)"
    and mn: "min_f s' = (if flt val (min_f s) then val else min_f s)"
    using a unfolding AddSample_def Let_def fgt_def
    by (auto split: if_splits sum.splits)
  from inv show ?thesis
  proof
    assume new: "count_f s = 0 \<and> min_f s = MaxFloat64 \<and> max_f s = fneg MaxFloat64"
    have "fle (min_f s') (max_f s')"
      using v MaxFloat64_real_pos unfolding mx mn
      by (cases val) (auto simp: new MaxFloat64_def)
    with new c show ?thesis by simp
  next
    assume old: "0 < count_f s \<and> fle (min_f s) (max_f s)"
    then have "min_f s \<noteq> NaN" "max_f s \<noteq> NaN"
      using fle_not_NaN by blast+
    with v old have "fle (min_f s') (max_f s')"
      unfolding mx mn by (auto simp: not_flt_iff_fle fle_refl)
    with old c show ?thesis by simp
  qed
qed

lemma step_minmax:
  assumes "step s c = Inr s'" and "\<forall>v. c = CallAddSample v \<longrightarrow> v \<noteq> NaN"
    and "(count_f s = 0 \<and> min_f s = MaxFloat64 \<and> max_f s = fneg MaxFloat64)
        \<or> (0 < count_f s \<and> fle (min_f s) (max_f s))"
  shows "(count_f s' = 0 \<and> min_f s' = MaxFloat64 \<and> max_f s' = fneg MaxFloat64)
        \<or> (0 < count_f s' \<and> fle (min_f s') (max_f s'))"
proof (cases c)
  case (CallAddSample val)
  with assms have "val \<noteq> NaN" "AddSample s val = Inr s'" by simp_all
  from AddSample_minmax [OF this assms(3)] show ?thesis by simp
next
  case (CallCreateBins nbins low high)
  with assms have "CreateBins s nbins low high = Inr s'" by simp
  from CreateBins_frame [OF this] assms(3) show ?thesis by simp
next
  case (CallCreateBinsDiscard nbins discardPct)
  with assms have "CreateBinsDiscard s nbins discardPct = Inr s'" by simp
  from CreateBinsDiscard_frame [OF this] assms(3) show ?thesis by simp
next
  case (CallPercentile pct)
  with assms obtain v where "Percentile s pct = Inr (v, s')"
    by (auto split: sum.splits)
  from Percentile_frame [OF this] assms(3) show ?thesis by simp
next
  case CallMedian
  with assms obtain v where "Median s = Inr (v, s')"
    by (auto split: sum.splits)
  from Median_frame [OF this] assms(3) show ?thesis by simp
qed

lemma run_minmax:
  "run s calls = Inr s' \<Longrightarrow> \<forall>v. CallAddSample v \<in> set calls \<longrightarrow> v \<noteq> NaN \<Longrightarrow>
   (count_f s = 0 \<and> min_f s = MaxFloat64 \<and> max_f s = fneg MaxFloat64)
        \<or> (0 < count_f s \<and> fle (min_f s) (max_f s)) \<Longrightarrow>
   (count_f s' = 0 \<and> min_f s' = MaxFloat64 \<and> max_f s' = fneg MaxFloat64)
        \<or> (0 < count_f s' \<and> fle (min_f s') (max_f s'))"
proof (induction calls arbitrary: s)
  case Nil
  then show ?case by simp
next
  case (Cons c calls)
  from Cons.prems(1) obtain s1 where s1: "step s c = Inr s1" and r: "run s1 calls = Inr s'"
    by (auto split: sum.splits)
  from Cons.prems(2) have c: "\<forall>v. c = CallAddSample v \<longrightarrow> v \<noteq> NaN"
    and cs: "\<forall>v. CallAddSample v \<in> set calls \<longrightarrow> v \<noteq> NaN"
    by auto
  from step_minmax [OF s1 c Cons.prems(3)] Cons.IH [OF r cs] show ?case
    by blast
qed

text \<open>
  C6, as stated, fails after AddSample of a NaN: both \<^verbatim>\<open>val > s.max\<close> and
  \<^verbatim>\<open>val < s.min\<close> are false, so \<^verbatim>\<open>min\<close> and \<^verbatim>\<open>max\<close> keep their initial values,
  \<^verbatim>\<open>min > max\<close> still holds with \<^verbatim>\<open>count\<close> at 1, and Min returns 0, not the
  \<^verbatim>\<open>min\<close> field.
\<close>

theorem Min_sentinel_counterexample:
  "run NewStats [CallAddSample NaN]
     = Inr \<lparr>count_f = 1, sum_f = NaN, sum2 = NaN, max_f = fneg MaxFloat64, min_f = MaxFloat64,
         samples = [NaN], sorted_f = False, bins = [], binCounts = []\<rparr>
   \<and> Count \<lparr>count_f = 1, sum_f = NaN, sum2 = NaN, max_f = fneg MaxFloat64, min_f = MaxFloat64,
         samples = [NaN], sorted_f = False, bins = [], binCounts = []\<rparr> = 1
   \<and> fgt MaxFloat64 (fneg MaxFloat64)
   \<and> Min_stats \<lparr>count_f = 1, sum_f = NaN, sum2 = NaN, max_f = fneg MaxFloat64,
         min_f = MaxFloat64, samples = [NaN], sorted_f = False, bins = [], binCounts = []\<rparr>
       = Fin 0
   \<and> MaxFloat64 \<noteq> Fin 0"
  using MaxFloat64_real_pos
  by (simp add: NewStats_def AddSample_def Let_def Count_def Min_stats_def fgt_def MaxFloat64_def)

text \<open>
  C6, amended. For every accumulator reached from a new one by calls that add no NaN, the
  comparison \<^verbatim>\<open>min > max\<close> holds exactly when \<^verbatim>\<open>count\<close> is 0, and Min, which decides
  by that comparison, returns the \<^verbatim>\<open>min\<close> field when \<^verbatim>\<open>count > 0\<close> and 0 when
  \<^verbatim>\<open>count\<close> is 0.
\<close>

theorem Min_sentinel:
  assumes "run NewStats calls = Inr s" and "\<forall>v. CallAddSample v \<in> set calls \<longrightarrow> v \<noteq> NaN"
  shows "(fgt (min_f s) (max_f s) \<longleftrightarrow> Count s = 0)
     \<and> Min_stats s = (if 0 < Count s then min_f s else Fin 0)
     \<and> 0 \<le> Count s"
proof -
  have "(count_f NewStats = 0 \<and> min_f NewStats = MaxFloat64 \<and> max_f NewStats = fneg MaxFloat64)
        \<or> (0 < count_f NewStats \<and> fle (min_f NewStats) (max_f NewStats))"
    by (simp add: NewStats_def)
  from run_minmax [OF assms this]
  show ?thesis
  proof
    assume "count_f s = 0 \<and> min_f s = MaxFloat64 \<and> max_f s = fneg MaxFloat64"
    then show ?thesis
      using MaxFloat64_real_pos by (simp add: Min_stats_def Count_def fgt_def MaxFloat64_def)
  next
    assume pos: "0 < count_f s \<and> fle (min_f s) (max_f s)"
    then have "\<not> flt (max_f s) (min_f s)"
      using flt_imp_not_fle by blast
    with pos show ?thesis
      by (simp add: Min_stats_def Count_def fgt_def)
  qed
qed

theorem Min_sentinel_witness:
  "run NewStats [CallAddSample (Fin 3), CallAddSample (Fin 1)]
     = Inr \<lparr>count_f = 2, sum_f = Fin 4, sum2 = Fin 10, max_f = Fin 3, min_f = Fin 1,
         samples = [Fin 3, Fin 1], sorted_f = False, bins = [], binCounts = []\<rparr>
   \<and> Fin 3 \<noteq> NaN \<and> Fin 1 \<noteq> NaN
   \<and> \<not> fgt (Fin 1) (Fin 3)
   \<and> Min_stats \<lparr>count_f = 2, sum_f = Fin 4, sum2 = Fin 10, max_f = Fin 3, min_f = Fin 1,
         samples = [Fin 3, Fin 1], sorted_f = False, bins = [], binCounts = []\<rparr> = Fin 1
   \<and> run NewStats [] = Inr NewStats
   \<and> fgt (min_f NewStats) (max_f NewStats)
   \<and> Min_stats NewStats = Fin 0"
proof -
  let ?calls = "[CallAddSample (Fin 3), CallAddSample (Fin 1)]"
  let ?t = "\<lparr>count_f = 2, sum_f = Fin 4, sum2 = Fin 10, max_f = Fin 3, min_f = Fin 1,
         samples = [Fin 3, Fin 1], sorted_f = False, bins = [], binCounts = []\<rparr>"
  have r: "run NewStats ?calls = Inr ?t"
    by (simp add: NewStats_def AddSample_def Let_def eval_float)
  have n: "\<forall>v. CallAddSample v \<in> set ?calls \<longrightarrow> v \<noteq> NaN"
    by auto
  have r0: "run NewStats [] = Inr NewStats"
    by simp
  have n0: "\<forall>v. CallAddSample v \<in> set [] \<longrightarrow> v \<noteq> NaN"
    by simp
  from Min_sentinel [OF r n] have "\<not> fgt (Fin 1) (Fin 3)"
    and "Min_stats ?t = Fin 1"
    by (simp_all add: Count_def)
  moreover from Min_sentinel [OF r0 n0] have "fgt (min_f NewStats) (max_f NewStats)"
    and "Min_stats NewStats = Fin 0"
    by (simp_all add: Count_def NewStats_def)
  ultimately show ?thesis
    using r r0 by simp
qed

section \<open>Sorting, and the order statistics\<close>

lemma flt_imp_fle: "flt a b \<Longrightarrow> fle a b"
  by (cases a; cases b) simp_all

lemma length_sort_insert: "length (sort_insert x ys) = Suc (length ys)"
  by (induction ys) simp_all

lemma mset_sort_insert: "mset (sort_insert x ys) = add_mset x (mset ys)"
  by (induction ys) simp_all

lemma set_sort_insert: "set (sort_insert x ys) = insert x (set ys)"
  by (induction ys) auto

lemma sorted_sort_insert:
  "x \<noteq> NaN \<Longrightarrow> \<forall>y\<in>set ys. y \<noteq> NaN \<Longrightarrow> sorted_wrt fle ys \<Longrightarrow>
     sorted_wrt fle (sort_insert x ys)"
proof (induction ys)
  case Nil
  then show ?case by simp
next
  case (Cons y ys)
  show ?case
  proof (cases "flt y x")
    case True
    then have "fle y x" by (rule flt_imp_fle)
    with Cons True show ?thesis
      by (auto simp: set_sort_insert)
  next
    case False
    with Cons.prems have xy: "fle x y"
      by (simp add: not_flt_iff_fle)
    then have "fle x z" if "z \<in> set ys" for z
      using Cons.prems(3) that fle_trans by auto
    with False xy Cons.prems(3) show ?thesis
      by auto
  qed
qed

lemma length_sort_Sort: "length (sort_Sort xs) = length xs"
  unfolding sort_Sort_def by (induction xs) (simp_all add: length_sort_insert)

lemma mset_sort_Sort: "mset (sort_Sort xs) = mset xs"
  unfolding sort_Sort_def by (induction xs) (simp_all add: mset_sort_insert)

lemma set_sort_Sort: "set (sort_Sort xs) = set xs"
  unfolding sort_Sort_def by (induction xs) (simp_all add: set_sort_insert)

lemma sorted_sort_Sort:
  "\<forall>v\<in>set xs. v \<noteq> NaN \<Longrightarrow> sorted_wrt fle (sort_Sort xs)"
proof (induction xs)
  case Nil
  then show ?case by (simp add: sort_Sort_def)
next
  case (Cons x xs)
  then have "sorted_wrt fle (sort_Sort xs)" "x \<noteq> NaN" "\<forall>y\<in>set (sort_Sort xs). y \<noteq> NaN"
    by (simp_all add: set_sort_Sort)
  then have "sorted_wrt fle (sort_insert x (sort_Sort xs))"
    by (intro sorted_sort_insert)
  then show ?case
    by (simp add: sort_Sort_def)
qed

text \<open>
  Samples without NaN have one ascending arrangement only: whatever \<^verbatim>\<open>sort.Sort\<close>
  does to get there, it returns what \<open>sort_Sort\<close> returns.
\<close>

lemma fle_antisym: "fle a b \<Longrightarrow> fle b a \<Longrightarrow> a = b"
  by (cases a; cases b) simp_all

lemma sorted_wrt_fle_unique:
  "sorted_wrt fle xs \<Longrightarrow> sorted_wrt fle ys \<Longrightarrow> mset xs = mset ys \<Longrightarrow>
     \<forall>v\<in>set xs. v \<noteq> NaN \<Longrightarrow> xs = ys"
proof (induction xs arbitrary: ys)
  case Nil
  then show ?case by simp
next
  case (Cons x xs)
  from Cons.prems(3) obtain y ys' where ys: "ys = y # ys'"
    by (cases ys) auto
  from Cons.prems(3) have sets: "set (x # xs) = set ys"
    by (rule mset_eq_setD)
  from Cons.prems(4) have nx: "x \<noteq> NaN"
    by simp
  from sets Cons.prems(4) have ny: "y \<noteq> NaN"
    unfolding ys by (metis list.set_intros(1))
  have "y \<in> set (x # xs)"
    using sets ys by simp
  with Cons.prems(1) nx have xy: "fle x y"
    by (auto simp: fle_refl)
  have "x \<in> set (y # ys')"
    using sets ys by (metis list.set_intros(1))
  with Cons.prems(2) ny have yx: "fle y x"
    unfolding ys by (auto simp: fle_refl)
  from xy yx have eq: "x = y"
    by (rule fle_antisym)
  with Cons.prems(3) have "mset xs = mset ys'"
    unfolding ys by simp
  moreover from Cons.prems(1) have "sorted_wrt fle xs" by simp
  moreover from Cons.prems(2) have "sorted_wrt fle ys'" unfolding ys by simp
  moreover from Cons.prems(4) have "\<forall>v\<in>set xs. v \<noteq> NaN" by simp
  ultimately have "xs = ys'"
    by (intro Cons.IH)
  with eq ys show ?case by simp
qed

lemma sort_Sort_unique:
  assumes "\<forall>v\<in>set xs. v \<noteq> NaN" and "mset a = mset xs" and "sorted_wrt fle a"
  shows "a = sort_Sort xs"
proof -
  have "sort_Sort xs = a"
  proof (rule sorted_wrt_fle_unique)
    show "sorted_wrt fle (sort_Sort xs)" using assms(1) by (rule sorted_sort_Sort)
    show "sorted_wrt fle a" by fact
    show "mset (sort_Sort xs) = mset a" using assms(2) by (simp add: mset_sort_Sort)
    show "\<forall>v\<in>set (sort_Sort xs). v \<noteq> NaN" using assms(1) by (simp add: set_sort_Sort)
  qed
  then show ?thesis by simp
qed

lemma AddSample_not_sorted:
  "AddSample s val = Inr s' \<Longrightarrow> \<not> sorted_f s \<Longrightarrow> \<not> sorted_f s'"
  unfolding AddSample_def Let_def
  by (auto split: if_splits sum.splits)

lemma step_not_sorted:
  assumes "step s c = Inr s'" "\<not> sorted_f s"
  shows "\<not> sorted_f s'"
proof (cases c)
  case (CallAddSample val)
  with assms show ?thesis by (auto dest: AddSample_not_sorted)
next
  case (CallCreateBins nbins low high)
  with assms have "CreateBins s nbins low high = Inr s'" by simp
  from CreateBins_frame [OF this] assms(2) show ?thesis by simp
next
  case (CallCreateBinsDiscard nbins discardPct)
  with assms have "CreateBinsDiscard s nbins discardPct = Inr s'" by simp
  from CreateBinsDiscard_frame [OF this] assms(2) show ?thesis by simp
next
  case (CallPercentile pct)
  with assms obtain v where "Percentile s pct = Inr (v, s')"
    by (auto split: sum.splits)
  from Percentile_frame [OF this] assms(2) show ?thesis by simp
next
  case CallMedian
  with assms obtain v where "Median s = Inr (v, s')"
    by (auto split: sum.splits)
  from Median_frame [OF this] assms(2) show ?thesis by simp
qed

lemma run_not_sorted:
  "run s calls = Inr s' \<Longrightarrow> \<not> sorted_f s \<Longrightarrow> \<not> sorted_f s'"
proof (induction calls arbitrary: s)
  case Nil
  then show ?case by simp
next
  case (Cons c calls)
  from Cons.prems(1) obtain s1 where s1: "step s c = Inr s1" and r: "run s1 calls = Inr s'"
    by (auto split: sum.splits)
  from Cons.IH [OF r step_not_sorted [OF s1 Cons.prems(2)]] show ?case .
qed

lemma reached_not_sorted: "run NewStats calls = Inr s \<Longrightarrow> \<not> sorted_f s"
  by (erule run_not_sorted) (simp add: NewStats_def)

lemma Percentile_index:
  assumes n: "0 < n" "n \<le> 2 ^ 52" and q: "0 \<le> q" "q \<le> 1"
  shows "\<exists>r. fadd (fmul (float_of_int (n - 1)) (Fin q)) (Fin (1 / 2)) = Fin r
     \<and> 0 \<le> \<lfloor>r\<rfloor> \<and> \<lfloor>r\<rfloor> < n \<and> float_to_int (Fin r) = Some \<lfloor>r\<rfloor>"
proof -
  have k: "float_of_int (n - 1) = Fin (real_of_int (n - 1))"
    using n by (intro float_of_int_exact) simp
  have B1: "fl (real_of_int (n - 1)) = Fin (real_of_int (n - 1))"
    using k by (simp add: float_of_int_def)
  have "0 \<le> real_of_int (n - 1) * q" "real_of_int (n - 1) * q \<le> real_of_int (n - 1)"
    using n q by (simp_all add: mult_left_le)
  from fl_bounded [OF this B1] obtain r1 where r1:
    "fl (real_of_int (n - 1) * q) = Fin r1" "0 \<le> r1" "r1 \<le> real_of_int (n - 1)"
    by blast
  have "\<bar>2 * n - 1\<bar> < 2 ^ 53"
    using n by simp
  from fl_dyadic [OF this, of 1]
  have B2: "fl (real_of_int (2 * n - 1) / 2) = Fin (real_of_int (2 * n - 1) / 2)"
    by simp
  have "0 \<le> r1 + 1 / 2" "r1 + 1 / 2 \<le> real_of_int (2 * n - 1) / 2"
    using r1 by simp_all
  from fl_bounded [OF this B2] obtain r where r:
    "fl (r1 + 1 / 2) = Fin r" "0 \<le> r" "r \<le> real_of_int (2 * n - 1) / 2"
    by blast
  have eq: "fadd (fmul (float_of_int (n - 1)) (Fin q)) (Fin (1 / 2)) = Fin r"
    unfolding k using r1(1) r(1) by simp
  have fl0: "0 \<le> \<lfloor>r\<rfloor>"
    using r(2) by simp
  have "r < real_of_int n"
    using r(3) by simp
  then have fln: "\<lfloor>r\<rfloor> < n"
    by (simp add: floor_less_iff)
  have "(2::int) ^ 52 < 2 ^ 63"
    by simp
  with fln n(2) have "\<lfloor>r\<rfloor> < 2 ^ 63"
    by linarith
  with fl0 r(2) have "float_to_int (Fin r) = Some \<lfloor>r\<rfloor>"
    by (simp add: float_to_int_def)
  with eq fl0 fln show ?thesis
    by blast
qed

text \<open>
  C1, as stated, fails in two ways.

  It fails where the float64 sum is rounded up to an integer. With samples [1, 2] and
  \<open>pct = 0.49999999999999994\<close>, the float64 just below 0.5, the rank
  \<open>(n - 1) * pct\<close> is \<open>pct\<close>, the nearest rank is 0 and
  \<open>\<lfloor>(n - 1) * pct + 0.5\<rfloor> = 0\<close>; but the float64 sum \<open>pct + 0.5\<close> rounds to 1
  (a tie, resolved to the even neighbour), \<^verbatim>\<open>int\<close> gives index 1, and Percentile
  returns 2.

  It fails where a sample is a NaN: the samples are then not sorted ascending. After
  AddSample of 2, NaN and 1 the sort compares NaN with 2 and 1 with NaN, both false, and
  moves nothing; Percentile(0) returns 2, the element at index 0, though the smaller
  sample 1 is held.
\<close>

theorem Percentile_nearest_rank_counterexample:
  "run NewStats [CallAddSample (Fin 1), CallAddSample (Fin 2)]
     = Inr \<lparr>count_f = 2, sum_f = Fin 3, sum2 = Fin 5, max_f = Fin 2, min_f = Fin 1,
         samples = [Fin 1, Fin 2], sorted_f = False, bins = [], binCounts = []\<rparr>
   \<and> fle (Fin 0) (Fin (1 / 2 - 1 / 2 ^ 54)) \<and> fle (Fin (1 / 2 - 1 / 2 ^ 54)) (Fin 1)
   \<and> is_float64 (Fin (1 / 2 - 1 / 2 ^ 54))
   \<and> Percentile \<lparr>count_f = 2, sum_f = Fin 3, sum2 = Fin 5, max_f = Fin 2, min_f = Fin 1,
         samples = [Fin 1, Fin 2], sorted_f = False, bins = [], binCounts = []\<rparr>
         (Fin (1 / 2 - 1 / 2 ^ 54))
     = Inr (Fin 2, \<lparr>count_f = 2, sum_f = Fin 3, sum2 = Fin 5, max_f = Fin 2, min_f = Fin 1,
         samples = [Fin 1, Fin 2], sorted_f = False, bins = [], binCounts = []\<rparr>)
   \<and> sort_Sort [Fin 1, Fin 2] ! nat \<lfloor>real_of_int (2 - 1) * (1 / 2 - 1 / 2 ^ 54) + 1 / 2\<rfloor>
     = Fin 1
   \<and> Fin 1 \<noteq> Fin 2
   \<and> run NewStats [CallAddSample (Fin 2), CallAddSample NaN, CallAddSample (Fin 1)]
     = Inr \<lparr>count_f = 3, sum_f = NaN, sum2 = NaN, max_f = Fin 2, min_f = Fin 1,
         samples = [Fin 2, NaN, Fin 1], sorted_f = False, bins = [], binCounts = []\<rparr>
   \<and> Percentile \<lparr>count_f = 3, sum_f = NaN, sum2 = NaN, max_f = Fin 2, min_f = Fin 1,
         samples = [Fin 2, NaN, Fin 1], sorted_f = False, bins = [], binCounts = []\<rparr> (Fin 0)
     = Inr (Fin 2, \<lparr>count_f = 3, sum_f = NaN, sum2 = NaN, max_f = Fin 2, min_f = Fin 1,
         samples = [Fin 2, NaN, Fin 1], sorted_f = False, bins = [], binCounts = []\<rparr>)
   \<and> flt (Fin 1) (Fin 2)"
proof -
  let ?s = "\<lparr>count_f = 2, sum_f = Fin 3, sum2 = Fin 5, max_f = Fin 2, min_f = Fin 1,
         samples = [Fin 1, Fin 2], sorted_f = False, bins = [], binCounts = []\<rparr>"
  let ?t = "\<lparr>count_f = 3, sum_f = NaN, sum2 = NaN, max_f = Fin 2, min_f = Fin 1,
         samples = [Fin 2, NaN, Fin 1], sorted_f = False, bins = [], binCounts = []\<rparr>"
  have run: "run NewStats [CallAddSample (Fin 1), CallAddSample (Fin 2)] = Inr ?s"
    by (simp add: NewStats_def AddSample_def Let_def eval_float)
  have p: "fl (9007199254740991 / 18014398509481984)
      = Fin (9007199254740991 / 18014398509481984)"
    using fl_dyadic [of "2 ^ 53 - 1" 54] by simp
  have sum: "fl (18014398509481983 / 18014398509481984) = Fin 1"
    by (rule fl_cert [where a = 0 and b = 1]) (simp_all add: rne_def)
  have "Percentile ?s (Fin (1 / 2 - 1 / 2 ^ 54)) = Inr (Fin 2, ?s)"
    by (simp add: Percentile_def sortSamples_def sort_Sort_def index_def float_to_int_def
        fgt_def float_of_int_def fl_exact p sum)
  moreover have "is_float64 (Fin (1 / 2 - 1 / 2 ^ 54))"
    by (simp add: is_float64_def p)
  moreover have "sort_Sort [Fin 1, Fin 2]
      ! nat \<lfloor>real_of_int (2 - 1) * (1 / 2 - 1 / 2 ^ 54) + 1 / 2\<rfloor> = Fin 1"
    by (simp add: sort_Sort_def)
  moreover have "run NewStats [CallAddSample (Fin 2), CallAddSample NaN, CallAddSample (Fin 1)]
      = Inr ?t"
    by (simp add: NewStats_def AddSample_def Let_def eval_float)
  moreover have "Percentile ?t (Fin 0) = Inr (Fin 2, ?t)"
    by (simp add: Percentile_def sortSamples_def sort_Sort_def index_def float_to_int_def
        fgt_def float_of_int_def fl_exact)
  ultimately show ?thesis
    using run by simp
qed

text \<open>
  C1, amended. Take an accumulator reached from a new one, in exact mode, holding
  \<open>n > 0\<close> samples none of which is a NaN, and \<open>0 \<le> pct \<le> 1\<close>. Percentile returns
  without a panic the element at index \<open>\<lfloor>(n - 1) * pct + 0.5\<rfloor>\<close> of the samples sorted
  ascending, the product and the sum being the float64 operations of the code, each
  rounded to nearest; the index is within \<open>0 \<le> i < n\<close>. Where the product and the sum
  are float64 values, so that nothing is rounded, the index is the floor of the exact
  \<open>(n - 1) * pct + 0.5\<close>: the nearest rank, halves rounded up. The sorted samples are
  the ascending arrangement of the samples, and the call leaves them in the caller's
  struct. The bound \<open>n \<le> 2 ^ 52\<close> keeps \<open>n - 1\<close> and \<open>n - 1 + 0.5\<close> float64 values;
  a slice that long does not fit in memory. The witness is the example of the claim:
  samples [1, 2] give 1, 2 and 2 at 0, 0.5 and 1.
\<close>

theorem Percentile_nearest_rank:
  assumes "run NewStats calls = Inr s" and "bins s = []" and "samples s \<noteq> []"
    and "int (length (samples s)) \<le> 2 ^ 52"
    and "fle (Fin 0) pct" and "fle pct (Fin 1)"
    and "\<forall>v\<in>set (samples s). v \<noteq> NaN"
  shows "\<exists>r. fadd (fmul (float_of_int (int (length (samples s)) - 1)) pct) (Fin (1 / 2)) = Fin r
       \<and> 0 \<le> \<lfloor>r\<rfloor> \<and> \<lfloor>r\<rfloor> < int (length (samples s))
       \<and> Percentile s pct
           = Inr (sort_Sort (samples s) ! nat \<lfloor>r\<rfloor>, s\<lparr>samples := sort_Sort (samples s)\<rparr>)
       \<and> (\<forall>q. pct = Fin q
              \<and> fl (real_of_int (int (length (samples s)) - 1) * q)
                  = Fin (real_of_int (int (length (samples s)) - 1) * q)
              \<and> fl (real_of_int (int (length (samples s)) - 1) * q + 1 / 2)
                  = Fin (real_of_int (int (length (samples s)) - 1) * q + 1 / 2)
            \<longrightarrow> r = real_of_int (int (length (samples s)) - 1) * q + 1 / 2)
       \<and> mset (sort_Sort (samples s)) = mset (samples s)
       \<and> sorted_wrt fle (sort_Sort (samples s))"
proof -
  from assms(5,6) obtain q where pct: "pct = Fin q" and q: "0 \<le> q" "q \<le> 1"
    by (cases pct) simp_all
  have n: "0 < int (length (samples s))"
    using assms(3) by simp
  from Percentile_index [OF n assms(4) q] obtain r where r:
    "fadd (fmul (float_of_int (int (length (samples s)) - 1)) pct) (Fin (1 / 2)) = Fin r"
    "0 \<le> \<lfloor>r\<rfloor>" "\<lfloor>r\<rfloor> < int (length (samples s))" "float_to_int (Fin r) = Some \<lfloor>r\<rfloor>"
    unfolding pct by blast
  have ns: "\<not> sorted_f s"
    using assms(1) by (rule reached_not_sorted)
  have res: "Percentile s pct
      = Inr (sort_Sort (samples s) ! nat \<lfloor>r\<rfloor>, s\<lparr>samples := sort_Sort (samples s)\<rparr>)"
    using assms(2,3) q ns r
    by (simp add: Percentile_def pct fgt_def sortSamples_def length_sort_Sort index_def)
  have k: "float_of_int (int (length (samples s)) - 1) = Fin (real_of_int (int (length (samples s)) - 1))"
    using n assms(4) by (intro float_of_int_exact) simp
  have exact: "r = real_of_int (int (length (samples s)) - 1) * q' + 1 / 2"
    if "pct = Fin q'"
      "fl (real_of_int (int (length (samples s)) - 1) * q') = Fin (real_of_int (int (length (samples s)) - 1) * q')"
      "fl (real_of_int (int (length (samples s)) - 1) * q' + 1 / 2)
         = Fin (real_of_int (int (length (samples s)) - 1) * q' + 1 / 2)"
    for q'
    using r(1) that unfolding k by simp
  have "sorted_wrt fle (sort_Sort (samples s))"
    using assms(7) by (rule sorted_sort_Sort)
  with r(1-3) res exact show ?thesis
    by (auto simp: mset_sort_Sort)
qed

theorem Percentile_nearest_rank_witness:
  "run NewStats [CallAddSample (Fin 1), CallAddSample (Fin 2)]
     = Inr \<lparr>count_f = 2, sum_f = Fin 3, sum2 = Fin 5, max_f = Fin 2, min_f = Fin 1,
         samples = [Fin 1, Fin 2], sorted_f = False, bins = [], binCounts = []\<rparr>
   \<and> Percentile \<lparr>count_f = 2, sum_f = Fin 3, sum2 = Fin 5, max_f = Fin 2, min_f = Fin 1,
         samples = [Fin 1, Fin 2], sorted_f = False, bins = [], binCounts = []\<rparr> (Fin 0)
     = Inr (Fin 1, \<lparr>count_f = 2, sum_f = Fin 3, sum2 = Fin 5, max_f = Fin 2, min_f = Fin 1,
         samples = [Fin 1, Fin 2], sorted_f = False, bins = [], binCounts = []\<rparr>)
   \<and> Percentile \<lparr>count_f = 2, sum_f = Fin 3, sum2 = Fin 5, max_f = Fin 2, min_f = Fin 1,
         samples = [Fin 1, Fin 2], sorted_f = False, bins = [], binCounts = []\<rparr> (Fin (1 / 2))
     = Inr (Fin 2, \<lparr>count_f = 2, sum_f = Fin 3, sum2 = Fin 5, max_f = Fin 2, min_f = Fin 1,
         samples = [Fin 1, Fin 2], sorted_f = False, bins = [], binCounts = []\<rparr>)
   \<and> Percentile \<lparr>count_f = 2, sum_f = Fin 3, sum2 = Fin 5, max_f = Fin 2, min_f = Fin 1,
         samples = [Fin 1, Fin 2], sorted_f = False, bins = [], binCounts = []\<rparr> (Fin 1)
     = Inr (Fin 2, \<lparr>count_f = 2, sum_f = Fin 3, sum2 = Fin 5, max_f = Fin 2, min_f = Fin 1,
         samples = [Fin 1, Fin 2], sorted_f = False, bins = [], binCounts = []\<rparr>)
   \<and> sorted_wrt fle (sort_Sort [Fin 1, Fin 2])"
proof -
  let ?s = "\<lparr>count_f = 2, sum_f = Fin 3, sum2 = Fin 5, max_f = Fin 2, min_f = Fin 1,
         samples = [Fin 1, Fin 2], sorted_f = False, bins = [], binCounts = []\<rparr>"
  have run: "run NewStats [CallAddSample (Fin 1), CallAddSample (Fin 2)] = Inr ?s"
    by (simp add: NewStats_def AddSample_def Let_def eval_float)
  have h: "bins ?s = []" "samples ?s \<noteq> []" "int (length (samples ?s)) \<le> 2 ^ 52"
    by simp_all
  have nn: "\<forall>v\<in>set (samples ?s). v \<noteq> NaN"
    by simp
  have srt: "sort_Sort [Fin 1, Fin 2] = [Fin 1, Fin 2]"
    by (simp add: sort_Sort_def)
  have p: "Percentile ?s (Fin q) = Inr ([Fin 1, Fin 2] ! nat \<lfloor>q + 1 / 2\<rfloor>, ?s)"
      and sorted: "sorted_wrt fle (sort_Sort [Fin 1, Fin 2])"
    if q: "0 \<le> q" "q \<le> 1" "fl q = Fin q" "fl (q + 1 / 2) = Fin (q + 1 / 2)" for q
  proof -
    have "fle (Fin 0) (Fin q)" "fle (Fin q) (Fin 1)"
      using q(1,2) by simp_all
    from Percentile_nearest_rank [OF run h this nn] obtain r where r:
      "Percentile ?s (Fin q)
         = Inr (sort_Sort (samples ?s) ! nat \<lfloor>r\<rfloor>, ?s\<lparr>samples := sort_Sort (samples ?s)\<rparr>)"
      "\<forall>q'. Fin q = Fin q'
          \<and> fl (real_of_int (int (length (samples ?s)) - 1) * q')
              = Fin (real_of_int (int (length (samples ?s)) - 1) * q')
          \<and> fl (real_of_int (int (length (samples ?s)) - 1) * q' + 1 / 2)
              = Fin (real_of_int (int (length (samples ?s)) - 1) * q' + 1 / 2)
          \<longrightarrow> r = real_of_int (int (length (samples ?s)) - 1) * q' + 1 / 2"
      "sorted_wrt fle (sort_Sort (samples ?s))"
      by blast
    from r(2) q(3,4) have "r = q + 1 / 2"
      by simp
    with r(1) show "Percentile ?s (Fin q) = Inr ([Fin 1, Fin 2] ! nat \<lfloor>q + 1 / 2\<rfloor>, ?s)"
      by (simp add: srt)
    from r(3) show "sorted_wrt fle (sort_Sort [Fin 1, Fin 2])"
      by simp
  qed
  have "Percentile ?s (Fin 0) = Inr ([Fin 1, Fin 2] ! nat \<lfloor>0 + 1 / 2 :: real\<rfloor>, ?s)"
    by (rule p) (simp_all add: fl_exact)
  moreover have "Percentile ?s (Fin (1 / 2))
      = Inr ([Fin 1, Fin 2] ! nat \<lfloor>1 / 2 + 1 / 2 :: real\<rfloor>, ?s)"
    by (rule p) (simp_all add: fl_exact)
  moreover have "Percentile ?s (Fin 1) = Inr ([Fin 1, Fin 2] ! nat \<lfloor>1 + 1 / 2 :: real\<rfloor>, ?s)"
    by (rule p) (simp_all add: fl_exact)
  moreover have "sorted_wrt fle (sort_Sort [Fin 1, Fin 2])"
    by (rule sorted [of 0]) (simp_all add: fl_exact)
  ultimately show ?thesis
    using run by simp
qed

section \<open>Median\<close>

lemma fl_2_1023: "fl (2 ^ 1023) = Fin (2 ^ 1023)"
  using fl_grid [of "2 ^ 52" 2045]
  by (simp add: SmallestNonzeroFloat64_real_def MaxFloat64_real_def)

lemma fl_2_1024: "fl (2 ^ 1023 + 2 ^ 1023) = PInf"
  by (rule fl_overflow [where a = 1024 and b = 0]) (simp_all add: rne_def MaxFloat64_real_def)

lemma fl_2_2046: "fl (2 ^ 1023 * 2 ^ 1023) = PInf"
  by (rule fl_overflow [where a = 2046 and b = 0]) (simp_all add: rne_def MaxFloat64_real_def)

lemma MaxFloat64_real_gt_2_1023:
  "(2::real) ^ 1023 < MaxFloat64_real" "- MaxFloat64_real < (2::real) ^ 1023"
  by (simp_all add: MaxFloat64_real_def)

lemma Median_overflow:
  assumes "fl x = Fin x" "fl (x + x) = PInf" "fl (x * x) = PInf"
    and "x < MaxFloat64_real" "- MaxFloat64_real < x"
  shows "run NewStats [CallAddSample (Fin x), CallAddSample (Fin x)]
     = Inr \<lparr>count_f = 2, sum_f = PInf, sum2 = PInf, max_f = Fin x, min_f = Fin x,
         samples = [Fin x, Fin x], sorted_f = False, bins = [], binCounts = []\<rparr>"
    and "Median \<lparr>count_f = 2, sum_f = PInf, sum2 = PInf, max_f = Fin x, min_f = Fin x,
         samples = [Fin x, Fin x], sorted_f = False, bins = [], binCounts = []\<rparr>
     = Inr (PInf, \<lparr>count_f = 2, sum_f = PInf, sum2 = PInf, max_f = Fin x, min_f = Fin x,
         samples = [Fin x, Fin x], sorted_f = False, bins = [], binCounts = []\<rparr>)"
    and "is_float64 (Fin x)"
  using assms
  by (simp_all add: NewStats_def AddSample_def Let_def MaxFloat64_def fgt_def Median_def
      sortSamples_def sort_Sort_def index_def is_float64_def)

text \<open>
  C8, as stated, fails in two ways.

  It fails where the float64 sum of the two middle samples overflows. The samples
  \<open>2 ^ 1023\<close> and \<open>2 ^ 1023\<close> are float64 values and so is their average,
  \<open>2 ^ 1023\<close>; but the sum \<open>2 ^ 1024\<close> is beyond the largest float64, the code's
  \<^verbatim>\<open>s.samples[half] + s.samples[half-1]\<close> is \<open>+Inf\<close>, and Median returns \<open>+Inf\<close>.

  It fails where a sample is a NaN: the samples are then not sorted ascending. After
  AddSample of 2, NaN and 1 the sort compares NaN with 2 and 1 with NaN, both false, and
  moves nothing: 2 stays before the smaller 1, and Median returns the NaN in the middle.
\<close>

theorem Median_middle_counterexample:
  "run NewStats [CallAddSample (Fin (2 ^ 1023)), CallAddSample (Fin (2 ^ 1023))]
     = Inr \<lparr>count_f = 2, sum_f = PInf, sum2 = PInf, max_f = Fin (2 ^ 1023),
         min_f = Fin (2 ^ 1023), samples = [Fin (2 ^ 1023), Fin (2 ^ 1023)], sorted_f = False,
         bins = [], binCounts = []\<rparr>
   \<and> is_float64 (Fin (2 ^ 1023))
   \<and> Median \<lparr>count_f = 2, sum_f = PInf, sum2 = PInf, max_f = Fin (2 ^ 1023),
         min_f = Fin (2 ^ 1023), samples = [Fin (2 ^ 1023), Fin (2 ^ 1023)], sorted_f = False,
         bins = [], binCounts = []\<rparr>
     = Inr (PInf, \<lparr>count_f = 2, sum_f = PInf, sum2 = PInf, max_f = Fin (2 ^ 1023),
         min_f = Fin (2 ^ 1023), samples = [Fin (2 ^ 1023), Fin (2 ^ 1023)], sorted_f = False,
         bins = [], binCounts = []\<rparr>)
   \<and> (2 ^ 1023 + 2 ^ 1023) / 2 = (2 ^ 1023 :: real)
   \<and> PInf \<noteq> Fin (2 ^ 1023)
   \<and> run NewStats [CallAddSample (Fin 2), CallAddSample NaN, CallAddSample (Fin 1)]
     = Inr \<lparr>count_f = 3, sum_f = NaN, sum2 = NaN, max_f = Fin 2, min_f = Fin 1,
         samples = [Fin 2, NaN, Fin 1], sorted_f = False, bins = [], binCounts = []\<rparr>
   \<and> Median \<lparr>count_f = 3, sum_f = NaN, sum2 = NaN, max_f = Fin 2, min_f = Fin 1,
         samples = [Fin 2, NaN, Fin 1], sorted_f = False, bins = [], binCounts = []\<rparr>
     = Inr (NaN, \<lparr>count_f = 3, sum_f = NaN, sum2 = NaN, max_f = Fin 2, min_f = Fin 1,
         samples = [Fin 2, NaN, Fin 1], sorted_f = False, bins = [], binCounts = []\<rparr>)
   \<and> flt (Fin 1) (Fin 2)"
proof -
  let ?t = "\<lparr>count_f = 3, sum_f = NaN, sum2 = NaN, max_f = Fin 2, min_f = Fin 1,
         samples = [Fin 2, NaN, Fin 1], sorted_f = False, bins = [], binCounts = []\<rparr>"
  note big = Median_overflow [OF fl_2_1023 fl_2_1024 fl_2_2046 MaxFloat64_real_gt_2_1023]
  have avg: "(2 ^ 1023 + 2 ^ 1023) / 2 = (2 ^ 1023 :: real)"
    by simp
  have ne: "PInf \<noteq> Fin (2 ^ 1023)"
    by (rule float64.distinct)
  have run2: "run NewStats [CallAddSample (Fin 2), CallAddSample NaN, CallAddSample (Fin 1)]
      = Inr ?t"
    by (simp add: NewStats_def AddSample_def Let_def eval_float)
  have med2: "Median ?t = Inr (NaN, ?t)"
    by (simp add: Median_def Let_def sortSamples_def sort_Sort_def index_def)
  have lt: "flt (Fin 1) (Fin 2)"
    by simp
  from big(1) big(3) big(2) avg ne run2 med2 lt show ?thesis
    by (intro conjI)
qed

text \<open>
  C8, amended. Take an accumulator reached from a new one, in exact mode, holding \<open>n\<close>
  samples none of which is a NaN, and let \<open>a\<close> be the samples sorted ascending. Median
  returns 0 when \<open>n = 0\<close>; when \<open>n\<close> is even it returns \<open>(a[n/2] + a[n/2 - 1]) / 2\<close>,
  the sum and the quotient being the float64 operations of the code, each rounded to
  nearest and overflowing to an infinity; when \<open>n\<close> is odd it returns \<open>a[n/2]\<close>, with
  integer division. No index is out of range, and the call leaves the caller's samples
  sorted. The witness holds the examples of the claim: the median of [1, 2, 3] is 2, that
  of [0, 1, 2, 3, 4, 5] is 2.5.
\<close>

theorem Median_middle:
  assumes "run NewStats calls = Inr s" and "bins s = []"
    and "\<forall>v\<in>set (samples s). v \<noteq> NaN"
  shows "Median s =
      (if length (samples s) = 0 then Inr (Fin 0, s)
       else if even (length (samples s))
       then Inr (fdiv (fadd (sort_Sort (samples s) ! (length (samples s) div 2))
                            (sort_Sort (samples s) ! (length (samples s) div 2 - 1))) (Fin 2),
                 s\<lparr>samples := sort_Sort (samples s)\<rparr>)
       else Inr (sort_Sort (samples s) ! (length (samples s) div 2),
                 s\<lparr>samples := sort_Sort (samples s)\<rparr>))
     \<and> mset (sort_Sort (samples s)) = mset (samples s)
     \<and> sorted_wrt fle (sort_Sort (samples s))"
proof -
  let ?n = "length (samples s)"
  have ns: "\<not> sorted_f s"
    using assms(1) by (rule reached_not_sorted)
  have half: "nat (int ?n div 2) = ?n div 2"
    by (simp add: nat_div_distrib)
  have half1: "nat (int ?n div 2 - 1) = ?n div 2 - 1"
    by (simp add: nat_diff_distrib' nat_div_distrib)
  have ev: "int ?n mod 2 = 0 \<longleftrightarrow> even ?n"
    by presburger
  have in1: "0 \<le> int ?n div 2 \<and> int ?n div 2 < int ?n" if "?n \<noteq> 0"
  proof -
    from that have "0 < int ?n" by simp
    then show ?thesis by presburger
  qed
  have in2: "0 \<le> int ?n div 2 - 1 \<and> int ?n div 2 - 1 < int ?n" if "?n \<noteq> 0" "even ?n"
  proof -
    from that have "0 < int ?n" "even (int ?n)" by simp_all
    then show ?thesis by presburger
  qed
  have "Median s =
      (if ?n = 0 then Inr (Fin 0, s)
       else if even ?n
       then Inr (fdiv (fadd (sort_Sort (samples s) ! (?n div 2))
                            (sort_Sort (samples s) ! (?n div 2 - 1))) (Fin 2),
                 s\<lparr>samples := sort_Sort (samples s)\<rparr>)
       else Inr (sort_Sort (samples s) ! (?n div 2),
                 s\<lparr>samples := sort_Sort (samples s)\<rparr>))"
    using assms(2) ns in1 in2
    by (simp add: Median_def Let_def sortSamples_def index_def length_sort_Sort half half1 ev)
  moreover have "sorted_wrt fle (sort_Sort (samples s))"
    using assms(3) by (rule sorted_sort_Sort)
  ultimately show ?thesis
    by (simp add: mset_sort_Sort)
qed

theorem Median_middle_witness:
  "run NewStats (map CallAddSample [Fin 1, Fin 2, Fin 3])
     = Inr \<lparr>count_f = 3, sum_f = Fin 6, sum2 = Fin 14, max_f = Fin 3, min_f = Fin 1,
         samples = [Fin 1, Fin 2, Fin 3], sorted_f = False, bins = [], binCounts = []\<rparr>
   \<and> Median \<lparr>count_f = 3, sum_f = Fin 6, sum2 = Fin 14, max_f = Fin 3, min_f = Fin 1,
         samples = [Fin 1, Fin 2, Fin 3], sorted_f = False, bins = [], binCounts = []\<rparr>
     = Inr (Fin 2, \<lparr>count_f = 3, sum_f = Fin 6, sum2 = Fin 14, max_f = Fin 3, min_f = Fin 1,
         samples = [Fin 1, Fin 2, Fin 3], sorted_f = False, bins = [], binCounts = []\<rparr>)
   \<and> run NewStats (map CallAddSample [Fin 0, Fin 1, Fin 2, Fin 3, Fin 4, Fin 5])
     = Inr \<lparr>count_f = 6, sum_f = Fin 15, sum2 = Fin 55, max_f = Fin 5, min_f = Fin 0,
         samples = [Fin 0, Fin 1, Fin 2, Fin 3, Fin 4, Fin 5], sorted_f = False, bins = [],
         binCounts = []\<rparr>
   \<and> Median \<lparr>count_f = 6, sum_f = Fin 15, sum2 = Fin 55, max_f = Fin 5, min_f = Fin 0,
         samples = [Fin 0, Fin 1, Fin 2, Fin 3, Fin 4, Fin 5], sorted_f = False, bins = [],
         binCounts = []\<rparr>
     = Inr (Fin (5 / 2), \<lparr>count_f = 6, sum_f = Fin 15, sum2 = Fin 55, max_f = Fin 5,
         min_f = Fin 0, samples = [Fin 0, Fin 1, Fin 2, Fin 3, Fin 4, Fin 5], sorted_f = False,
         bins = [], binCounts = []\<rparr>)
   \<and> Median NewStats = Inr (Fin 0, NewStats)
   \<and> sorted_wrt fle (sort_Sort [Fin 0, Fin 1, Fin 2, Fin 3, Fin 4, Fin 5])"
proof -
  let ?s = "\<lparr>count_f = 3, sum_f = Fin 6, sum2 = Fin 14, max_f = Fin 3, min_f = Fin 1,
         samples = [Fin 1, Fin 2, Fin 3], sorted_f = False, bins = [], binCounts = []\<rparr>"
  let ?t = "\<lparr>count_f = 6, sum_f = Fin 15, sum2 = Fin 55, max_f = Fin 5, min_f = Fin 0,
         samples = [Fin 0, Fin 1, Fin 2, Fin 3, Fin 4, Fin 5], sorted_f = False, bins = [],
         binCounts = []\<rparr>"
  have rs: "run NewStats (map CallAddSample [Fin 1, Fin 2, Fin 3]) = Inr ?s"
    by (simp add: NewStats_def AddSample_def Let_def eval_float)
  have rt: "run NewStats (map CallAddSample [Fin 0, Fin 1, Fin 2, Fin 3, Fin 4, Fin 5]) = Inr ?t"
    by (simp add: NewStats_def AddSample_def Let_def eval_float)
  have r0: "run NewStats [] = Inr NewStats"
    by simp
  have "Median ?s = Inr (Fin 2, ?s)"
    using Median_middle [OF rs, THEN conjunct1] by (simp add: sort_Sort_def)
  moreover have "Median ?t = Inr (Fin (5 / 2), ?t)"
    using Median_middle [OF rt, THEN conjunct1] by (simp add: sort_Sort_def eval_float)
  moreover have "Median NewStats = Inr (Fin 0, NewStats)"
    using Median_middle [OF r0, THEN conjunct1] by (simp add: NewStats_def)
  moreover have "sorted_wrt fle (sort_Sort [Fin 0, Fin 1, Fin 2, Fin 3, Fin 4, Fin 5])"
    using Median_middle [OF rt, THEN conjunct2, THEN conjunct2] by simp
  ultimately show ?thesis
    using rs rt by (intro conjI)
qed

section \<open>CreateBinsDiscard\<close>

lemma Percentile_exact_not_IllegalState:
  "bins s = [] \<Longrightarrow> \<not> fails_with (Percentile s pct) IllegalState"
  unfolding Percentile_def Let_def fails_with_def index_def
  by (simp split: option.splits sum.splits)

lemma CreateBins_not_IllegalState:
  "\<not> fails_with (CreateBins s nbins low high) IllegalState"
  unfolding CreateBins_def Let_def fails_with_def
  by simp

text \<open>
  The guard of CreateBinsDiscard, as the code has it. In exact mode, for a \<open>discardPct\<close>
  whose quotient \<^verbatim>\<open>1.0/discardPct\<close> converts to an int \<open>k\<close> (truncated towards zero),
  the call fails with an IllegalState condition if and only if fewer than \<open>k\<close> samples
  are held; otherwise it is CreateBins on Percentile(discardPct) and
  Percentile(1 - discardPct), evaluated in that order, and fails as they fail.
\<close>

lemma CreateBinsDiscard_guard:
  assumes "bins s = []" and "float_to_int (fdiv (Fin 1) discardPct) = Some k"
  shows "(fails_with (CreateBinsDiscard s nbins discardPct) IllegalState
            \<longleftrightarrow> int (length (samples s)) < k)
     \<and> (\<not> int (length (samples s)) < k \<longrightarrow>
          CreateBinsDiscard s nbins discardPct =
            (case Percentile s discardPct of
               Inl e \<Rightarrow> Inl e
             | Inr (low, s1) \<Rightarrow>
                 (case Percentile s1 (fsub (Fin 1) discardPct) of
                    Inl e \<Rightarrow> Inl e
                  | Inr (high, s2) \<Rightarrow> CreateBins s2 nbins low high)))"
proof (cases "int (length (samples s)) < k")
  case True
  with assms(2) show ?thesis
    by (simp add: CreateBinsDiscard_def fails_with_def)
next
  case False
  with assms(2) have eq: "CreateBinsDiscard s nbins discardPct =
            (case Percentile s discardPct of
               Inl e \<Rightarrow> Inl e
             | Inr (low, s1) \<Rightarrow>
                 (case Percentile s1 (fsub (Fin 1) discardPct) of
                    Inl e \<Rightarrow> Inl e
                  | Inr (high, s2) \<Rightarrow> CreateBins s2 nbins low high))"
    by (simp add: CreateBinsDiscard_def)
  have "\<not> fails_with (CreateBinsDiscard s nbins discardPct) IllegalState"
  proof (cases "Percentile s discardPct")
    case (Inl e)
    with Percentile_exact_not_IllegalState [OF assms(1), of discardPct] show ?thesis
      unfolding eq by (simp add: fails_with_def)
  next
    case (Inr p)
    obtain low s1 where p: "p = (low, s1)" by (cases p)
    from Percentile_frame [OF Inr [unfolded p]] assms(1) have b1: "bins s1 = []"
      by simp
    show ?thesis
    proof (cases "Percentile s1 (fsub (Fin 1) discardPct)")
      case (Inl e)
      with Percentile_exact_not_IllegalState [OF b1, of "fsub (Fin 1) discardPct"] Inr p
      show ?thesis
        unfolding eq by (simp add: fails_with_def)
    next
      case Inr2: (Inr p2)
      obtain high s2 where p2: "p2 = (high, s2)" by (cases p2)
      from CreateBins_not_IllegalState [of s2 nbins low high] Inr p Inr2 p2 show ?thesis
        unfolding eq by simp
    qed
  qed
  with False eq show ?thesis
    by simp
qed

text \<open>
  C4. The claim asks for \<open>\<lceil>1 / discardFraction\<rceil>\<close> samples, and so does the doc comment
  of CreateBinsDiscard: \<^verbatim>\<open>1/discardPct samples are required\<close>. The code compares the
  number of samples with \<^verbatim>\<open>int(1.0/discardPct)\<close>, which truncates, and lets a call
  through that holds fewer samples than are required. With the two samples 1 and 2 and
  \<open>discardPct = 0.375\<close> the quotient is 2.666..., so three samples are required; the code
  compares \<open>2 < 2\<close>, does not fail, and builds the bins from Percentile(0.375) = 1 and
  Percentile(0.625) = 2.
\<close>

theorem CreateBinsDiscard_truncates:
  "run NewStats [CallAddSample (Fin 1), CallAddSample (Fin 2)]
     = Inr \<lparr>count_f = 2, sum_f = Fin 3, sum2 = Fin 5, max_f = Fin 2, min_f = Fin 1,
         samples = [Fin 1, Fin 2], sorted_f = False, bins = [], binCounts = []\<rparr>
   \<and> bins \<lparr>count_f = 2, sum_f = Fin 3, sum2 = Fin 5, max_f = Fin 2, min_f = Fin 1,
       samples = [Fin 1, Fin 2], sorted_f = False, bins = [], binCounts = []\<rparr> = []
   \<and> int (length [Fin 1, Fin 2]) < \<lceil>1 / (3 / 8 :: real)\<rceil>
   \<and> fdiv (Fin 1) (Fin (3 / 8)) = Fin (6004799503160661 / 2251799813685248)
   \<and> int (length [Fin 1, Fin 2]) < \<lceil>6004799503160661 / 2251799813685248 :: real\<rceil>
   \<and> CreateBinsDiscard \<lparr>count_f = 2, sum_f = Fin 3, sum2 = Fin 5, max_f = Fin 2, min_f = Fin 1,
       samples = [Fin 1, Fin 2], sorted_f = False, bins = [], binCounts = []\<rparr> 3 (Fin (3 / 8))
     = Inr \<lparr>count_f = 2, sum_f = Fin 3, sum2 = Fin 5, max_f = Fin 2, min_f = Fin 1,
         samples = [], sorted_f = False, bins = [Fin 1, Fin 2, MaxFloat64],
         binCounts = [0, 0, 0]\<rparr>"
proof -
  have q: "fl (8 / 3) = Fin (6004799503160661 / 2251799813685248)"
    by (rule fl_cert [where a = 1 and b = 0]) (simp_all add: rne_def)
  have c: "\<lceil>6004799503160661 / 2251799813685248 :: real\<rceil> = 3" "\<lceil>1 / (3 / 8 :: real)\<rceil> = 3"
    by (simp_all add: ceiling_eq_iff)
  have run: "run NewStats [CallAddSample (Fin 1), CallAddSample (Fin 2)]
     = Inr \<lparr>count_f = 2, sum_f = Fin 3, sum2 = Fin 5, max_f = Fin 2, min_f = Fin 1,
         samples = [Fin 1, Fin 2], sorted_f = False, bins = [], binCounts = []\<rparr>"
    by (simp add: NewStats_def AddSample_def Let_def eval_float)
  show ?thesis
    unfolding run
    by (simp add: c CreateBinsDiscard_def Percentile_def sortSamples_def sort_Sort_def index_def
        float_to_int_def CreateBins_def CreateBins_loop.simps Let_def q eval_float numeral_eq_Suc)
qed
end
